theory Spec2Isabelle
  imports Main "HOL-Library.Multiset"
begin

text \<open>
  A model of the script \<^verbatim>\<open>price-files-downloader.js\<close>, which fetches a page of price
  lists, extracts the links of the files, downloads them in batches, unpacks or copies
  what it has downloaded and writes a summary of the run.  The repository has a second
  version of the script that reads the page with a browser; its \<^verbatim>\<open>downloadFile\<close>,
  \<^verbatim>\<open>downloadAllFiles\<close>, \<^verbatim>\<open>processDownloadedFiles\<close> and \<^verbatim>\<open>saveMetadata\<close> are the same
  functions, and it has no backup strategy for the links.
\<close>

section \<open>Strings\<close>

text \<open>
  A JavaScript string is modelled as a \<^typ>\<open>string\<close>; one \<^typ>\<open>char\<close> stands for one
  code unit, so the model has the strings whose code units are below 256.  The
  functions below that inspect characters tell a fixed set of such code units from all
  the others; a code unit above 255 is outside the character class of the sanitizer and
  is not a capital letter of \<open>.ZIP\<close>.
\<close>

definition code :: "char \<Rightarrow> nat" where
  "code c = of_char c"

text \<open>The character class \<^verbatim>\<open>[a-zA-Z0-9.-]\<close> of the regular expression in \<^verbatim>\<open>downloadFile\<close>.\<close>

definition in_class :: "char \<Rightarrow> bool" where
  "in_class c \<longleftrightarrow>
     (97 \<le> code c \<and> code c \<le> 122) \<or> (65 \<le> code c \<and> code c \<le> 90) \<or>
     (48 \<le> code c \<and> code c \<le> 57) \<or> c = CHR ''.'' \<or> c = CHR ''-''"

text \<open>\<^verbatim>\<open>filename.replace(/[^a-zA-Z0-9.-]/g, "_")\<close>: every code unit outside the class
  becomes an underscore, the others are kept.\<close>

definition sanitizedFilename :: "string \<Rightarrow> string" where
  "sanitizedFilename filename = map (\<lambda>c. if in_class c then c else CHR ''_'') filename"

text \<open>\<^verbatim>\<open>String.prototype.trim\<close> removes white space and line terminators at both ends.\<close>

definition js_space :: "char \<Rightarrow> bool" where
  "js_space c \<longleftrightarrow> code c \<in> {9, 10, 11, 12, 13, 32, 160}"

definition trim :: "string \<Rightarrow> string" where
  "trim s = rev (dropWhile js_space (rev (dropWhile js_space s)))"

text \<open>\<^verbatim>\<open>s.split("/")\<close>: the pieces between the slashes; the result is never empty
  (\<^verbatim>\<open>"".split("/")\<close> is \<^verbatim>\<open>[""]\<close>).\<close>

fun split_slash :: "string \<Rightarrow> string list" where
  "split_slash [] = [[]]"
| "split_slash (c # cs) =
     (if c = CHR ''/'' then [] # split_slash cs
      else (case split_slash cs of p # ps \<Rightarrow> (c # p) # ps | [] \<Rightarrow> [[c]]))"

definition startsWith :: "string \<Rightarrow> string \<Rightarrow> bool" where
  "startsWith s p \<longleftrightarrow> take (length p) s = p"

definition endsWith :: "string \<Rightarrow> string \<Rightarrow> bool" where
  "endsWith s p \<longleftrightarrow> length p \<le> length s \<and> drop (length s - length p) s = p"

text \<open>\<^verbatim>\<open>toLowerCase\<close> on the represented code units: the ASCII capitals and the
  Latin-1 capitals move up by 32.\<close>

definition lower_char :: "char \<Rightarrow> char" where
  "lower_char c =
     (if (65 \<le> code c \<and> code c \<le> 90) \<or> (192 \<le> code c \<and> code c \<le> 222 \<and> code c \<noteq> 215)
      then char_of (code c + 32) else c)"

definition toLowerCase :: "string \<Rightarrow> string" where
  "toLowerCase s = map lower_char s"

text \<open>A number inside a template literal: its decimal digits.\<close>

function decimal :: "nat \<Rightarrow> string" where
  "decimal n = (if n < 10 then [''0123456789'' ! n] else decimal (n div 10) @ [''0123456789'' ! (n mod 10)])"
  by pat_completeness auto
termination
  by (relation "measure id") auto

section \<open>Errors, links and the configuration\<close>

text \<open>
  A thrown value is an error object with a message.  \<open>Error\<close> is an error raised by a
  collaborator (the HTTP client, the HTML parser, the file system, a child process);
  \<open>TypeError\<close> is raised by the language when a method is read from \<^verbatim>\<open>undefined\<close>, and
  carries the name of that method, which its message quotes.
\<close>

datatype js_error = Error string | TypeError string

fun message :: "js_error \<Rightarrow> string" where
  "message (Error m) = m"
| "message (TypeError p) =
     ''Cannot read properties of undefined (reading '' @ [CHR 0x27] @ p @ [CHR 0x27] @ '')''"

text \<open>The objects \<^verbatim>\<open>{ url, filename }\<close> that link extraction produces, and the objects
  \<^verbatim>\<open>{ ...link, filePath }\<close> and \<^verbatim>\<open>{ ...link, error }\<close> that \<^verbatim>\<open>downloadAllFiles\<close> collects.\<close>

record link =
  url :: string
  filename :: string

record downloaded = link +
  filePath :: string

record failure = link +
  error :: string

text \<open>An element matched by the selector, as far as the callbacks read it:
  \<^verbatim>\<open>attr("href")\<close>, \<^verbatim>\<open>text()\<close> and \<^verbatim>\<open>attr("download")\<close>.  A missing attribute is
  \<^verbatim>\<open>undefined\<close>, here \<open>None\<close>.\<close>

record element =
  attr_href :: "string option"
  text_content :: string
  attr_download :: "string option"

text \<open>The constants of \<^verbatim>\<open>CONFIG\<close>.  \<^verbatim>\<open>new URL(CONFIG.url)\<close> has the protocol \<^verbatim>\<open>https:\<close>
  and the host \<^verbatim>\<open>www.konzum.hr\<close>.  The two directories of \<^verbatim>\<open>CONFIG\<close> depend on the
  script's location and on the date, and are part of the environment below.\<close>

definition CONFIG_url :: string where
  "CONFIG_url = ''https://www.konzum.hr/cjenici''"

definition CONFIG_selector :: string where
  "CONFIG_selector = ''.js-price-lists-2025-05-15 a:not(.btn)''"

definition CONFIG_maxConcurrentDownloads :: nat where
  "CONFIG_maxConcurrentDownloads = 5"

definition CONFIG_userAgent :: string where
  "CONFIG_userAgent = ''Mozilla/5.0 (Windows NT 10.0; Win64; x64) AppleWebKit/537.36 (KHTML, like Gecko) Chrome/91.0.4472.124 Safari/537.36''"

definition baseUrl_protocol :: string where
  "baseUrl_protocol = ''https:''"

definition baseUrl_host :: string where
  "baseUrl_host = ''www.konzum.hr''"

section \<open>The environment and the trace of a run\<close>

text \<open>
  How the world answers one streamed download: the request itself is rejected
  (\<^verbatim>\<open>await axios(...)\<close> throws), or the response arrives and the write stream emits
  \<^verbatim>\<open>error\<close> (a later \<^verbatim>\<open>close\<close> is ignored by the guard \<^verbatim>\<open>if (!error)\<close>), or the write
  stream emits \<^verbatim>\<open>close\<close> with no error before it, or the response arrives and then breaks
  off or stalls.  In the last case the write stream emits neither event: \<^verbatim>\<open>pipe\<close> does
  not end the write stream when its source fails, and \<^verbatim>\<open>downloadFile\<close> has no handler on
  \<^verbatim>\<open>response.data\<close>, so the promise it has returned is never settled.
\<close>

datatype reply = AxiosRejects js_error | WriterErrors js_error | WriterCloses | ResponseBreaks

text \<open>
  Everything outside the script: the two directories, the clock, the \<^verbatim>\<open>path\<close> module
  of the platform, the file system, the HTTP client, the HTML parser with the selector
  engine, child processes, and the time at which each download has its last event.  The
  answers are functions of the arguments of the call, so \<open>fs_existsSync\<close> does not see a
  directory that an earlier \<open>mkdirSync\<close> of the run has made; a download is identified by
  the index that \<^verbatim>\<open>downloadAllFiles\<close> gives it.
\<close>

record env =
  downloadDir :: string
  fileProcessingDir :: string
  now :: string
  path_join :: "string \<Rightarrow> string \<Rightarrow> string"
  path_basename :: "string \<Rightarrow> string"
  path_basename_ext :: "string \<Rightarrow> string \<Rightarrow> string"
  fs_existsSync :: "string \<Rightarrow> bool"
  fs_mkdirSync :: "string \<Rightarrow> js_error option"
  fs_writeFileSync :: "string \<Rightarrow> js_error option"
  fs_copyFileSync :: "string \<Rightarrow> string \<Rightarrow> js_error option"
  axios_get :: "string \<Rightarrow> js_error + string"
  cheerio_select :: "string \<Rightarrow> string \<Rightarrow> js_error + element list"
  exec :: "string \<Rightarrow> js_error + string"
  axios_stream :: "nat \<Rightarrow> link \<Rightarrow> reply"
  finish :: "nat \<Rightarrow> nat"

text \<open>
  What a run does to the outside, in order: log lines, the page request, commands
  handed to a shell, file-system writes, the request of download number \<open>n\<close>, and the
  moment download number \<open>n\<close> has settled and its outcome has been pushed onto the
  results.  A download that never settles has no such moment.
\<close>

datatype level = Info | Warn | Err

datatype event =
    Log level string
  | HttpGet string
  | Exec string
  | MkDir string
  | WriteFile string
  | CopyFile string string
  | CreateWriteStream string
  | Request nat string
  | Settled nat

type_synonym trace = "event list"

section \<open>Effects\<close>

text \<open>
  A computation returns its result, \<open>Inl\<close> for a thrown error, together with the
  events it caused.  \<open>andThen\<close> is sequencing (an error skips the rest), \<open>tryCatch\<close> is
  \<^verbatim>\<open>try { ... } catch (error) { ... }\<close>.
\<close>

type_synonym 'a io = "(js_error + 'a) \<times> trace"

text \<open>The outcome of a promise that may stay pending for ever: \<open>None\<close> when it does, with
  the events that happened all the same.\<close>

type_synonym 'a promised = "(js_error + 'a) option \<times> trace"

definition andThen :: "'a io \<Rightarrow> ('a \<Rightarrow> 'b io) \<Rightarrow> 'b io" where
  "andThen m f =
     (case m of
        (Inl e, t) \<Rightarrow> (Inl e, t)
      | (Inr x, t) \<Rightarrow> (case f x of (r, t') \<Rightarrow> (r, t @ t')))"

definition tryCatch :: "'a io \<Rightarrow> (js_error \<Rightarrow> 'a io) \<Rightarrow> 'a io" where
  "tryCatch m handler =
     (case m of
        (Inl e, t) \<Rightarrow> (case handler e of (r, t') \<Rightarrow> (r, t @ t'))
      | (Inr x, t) \<Rightarrow> (Inr x, t))"

definition logger :: "level \<Rightarrow> string \<Rightarrow> unit io" where
  "logger lvl msg = (Inr (), [Log lvl msg])"

definition mkdirSync :: "env \<Rightarrow> string \<Rightarrow> unit io" where
  "mkdirSync env dir =
     ((case fs_mkdirSync env dir of Some e \<Rightarrow> Inl e | None \<Rightarrow> Inr ()), [MkDir dir])"

definition writeFileSync :: "env \<Rightarrow> string \<Rightarrow> unit io" where
  "writeFileSync env file =
     ((case fs_writeFileSync env file of Some e \<Rightarrow> Inl e | None \<Rightarrow> Inr ()), [WriteFile file])"

definition copyFileSync :: "env \<Rightarrow> string \<Rightarrow> string \<Rightarrow> unit io" where
  "copyFileSync env src dest =
     ((case fs_copyFileSync env src dest of Some e \<Rightarrow> Inl e | None \<Rightarrow> Inr ()),
      [CopyFile src dest])"

text \<open>A double quote inside a shell command.\<close>

definition dq :: string where
  "dq = [CHR 0x22]"

section \<open>Set-up\<close>

definition setupDirectories :: "env \<Rightarrow> unit io" where
  "setupDirectories env =
     andThen
       (if \<not> fs_existsSync env (downloadDir env) then
          andThen (mkdirSync env (downloadDir env)) (\<lambda>_.
            logger Info (''Created download directory: '' @ downloadDir env))
        else (Inr (), []))
       (\<lambda>_.
          if \<not> fs_existsSync env (fileProcessingDir env) then
            andThen (mkdirSync env (fileProcessingDir env)) (\<lambda>_.
              logger Info (''Created processing directory: '' @ fileProcessingDir env))
          else (Inr (), []))"

section \<open>Link extraction\<close>

text \<open>\<^verbatim>\<open>$(CONFIG.selector).each((i, element) => ...)\<close>: the callback runs on the matched
  elements in order, with the index from 0; an error thrown by the callback ends the
  loop.\<close>

fun each :: "(nat \<Rightarrow> element \<Rightarrow> js_error + link) \<Rightarrow> nat \<Rightarrow> element list \<Rightarrow> js_error + link list" where
  "each callback i [] = Inr []"
| "each callback i (element # rest) =
     (case callback i element of
        Inl e \<Rightarrow> Inl e
      | Inr l \<Rightarrow> (case each callback (Suc i) rest of Inl e \<Rightarrow> Inl e | Inr ls \<Rightarrow> Inr (l # ls)))"

text \<open>\<^verbatim>\<open>if (url.startsWith("/")) absoluteUrl = `${baseUrl.protocol}//${baseUrl.host}${url}`\<close>,
  the same in both callbacks.\<close>

definition absoluteUrl :: "string \<Rightarrow> string" where
  "absoluteUrl href =
     (if startsWith href ''/'' then baseUrl_protocol @ ''//'' @ baseUrl_host @ href else href)"

text \<open>The callback of \<^verbatim>\<open>extractDownloadLinks\<close>.  With no \<^verbatim>\<open>href\<close>, \<^verbatim>\<open>url\<close> is
  \<^verbatim>\<open>undefined\<close> and the first method read from it throws.\<close>

definition extractCallback :: "nat \<Rightarrow> element \<Rightarrow> js_error + link" where
  "extractCallback i element =
     (let txt = trim (text_content element);
          name0 = (case attr_download element of
                     Some d \<Rightarrow> if d \<noteq> [] then d else txt
                   | None \<Rightarrow> txt)
      in case attr_href element of
           None \<Rightarrow> Inl (TypeError (if name0 = [] then ''split'' else ''startsWith''))
         | Some href \<Rightarrow>
             (let name1 = (if name0 = [] then last (split_slash href) else name0)
              in Inr \<lparr>url = absoluteUrl href,
                      filename = (if name1 \<noteq> [] then name1 else ''file-'' @ decimal i @ ''.csv'')\<rparr>))"

text \<open>The callback of \<^verbatim>\<open>fetchLinksWithCurl\<close>.\<close>

definition curlCallback :: "nat \<Rightarrow> element \<Rightarrow> js_error + link" where
  "curlCallback i element =
     (let txt = trim (text_content element)
      in case attr_href element of
           None \<Rightarrow> Inl (TypeError ''startsWith'')
         | Some href \<Rightarrow>
             Inr \<lparr>url = absoluteUrl href,
                  filename = (if txt \<noteq> [] then txt else ''file-'' @ decimal i @ ''.csv'')\<rparr>)"

definition extractDownloadLinks :: "env \<Rightarrow> link list io" where
  "extractDownloadLinks env =
     andThen (logger Info (''Fetching HTML from '' @ CONFIG_url)) (\<lambda>_.
       tryCatch
         (andThen (axios_get env CONFIG_url, [HttpGet CONFIG_url]) (\<lambda>html.
          andThen (cheerio_select env html CONFIG_selector, []) (\<lambda>elements.
          andThen (each extractCallback 0 elements, []) (\<lambda>links.
          andThen (logger Info (''Found '' @ decimal (length links) @ '' files to download'')) (\<lambda>_.
          andThen (writeFileSync env (path_join env (downloadDir env) ''_links.json'')) (\<lambda>_.
            (Inr links, [])))))))
         (\<lambda>e.
            andThen (logger Err (''Error extracting download links: '' @ message e)) (\<lambda>_.
              (Inl e, []))))"

definition curlCommand :: string where
  "curlCommand = ''curl -A '' @ dq @ CONFIG_userAgent @ dq @ '' -s '' @ dq @ CONFIG_url @ dq"

definition fetchLinksWithCurl :: "env \<Rightarrow> link list io" where
  "fetchLinksWithCurl env =
     andThen (logger Info ''Trying to fetch page with curl as a backup method'') (\<lambda>_.
       case exec env curlCommand of
         Inl e \<Rightarrow> (Inl e, [Exec curlCommand, Log Err (''curl error: '' @ message e)])
       | Inr stdout \<Rightarrow>
           andThen (Inr (), [Exec curlCommand]) (\<lambda>_.
             tryCatch
               (andThen (cheerio_select env stdout CONFIG_selector, []) (\<lambda>elements.
                andThen (each curlCallback 0 elements, []) (\<lambda>links.
                andThen (logger Info (''Found '' @ decimal (length links) @ '' files with curl'')) (\<lambda>_.
                  (Inr links, [])))))
               (\<lambda>parseError.
                  andThen (logger Err (''Error parsing curl output: '' @ message parseError)) (\<lambda>_.
                    (Inl parseError, [])))))"

text \<open>The link-extraction phase of \<^verbatim>\<open>main\<close>: the inner \<^verbatim>\<open>try\<close> around the primary
  strategy, whose \<^verbatim>\<open>catch\<close> block awaits the backup strategy.\<close>

definition getLinks :: "env \<Rightarrow> link list io" where
  "getLinks env =
     tryCatch (extractDownloadLinks env)
       (\<lambda>e.
          andThen (logger Warn (''Primary extraction method failed: '' @ message e)) (\<lambda>_.
          andThen (logger Info ''Trying backup method with curl...'') (\<lambda>_.
            fetchLinksWithCurl env)))"

section \<open>Downloading\<close>

text \<open>
  \<^verbatim>\<open>downloadFile\<close> in two parts, since the downloads of a batch overlap: what runs when
  it is called (up to the request), and what runs when the world has answered.
\<close>

definition destination :: "env \<Rightarrow> link \<Rightarrow> string" where
  "destination env fileInfo =
     path_join env (downloadDir env) (sanitizedFilename (filename fileInfo))"

definition downloadFile_start :: "env \<Rightarrow> link \<Rightarrow> nat \<Rightarrow> trace" where
  "downloadFile_start env fileInfo index =
     [Log Info (''['' @ decimal index @ ''] Downloading: '' @ url fileInfo @ '' to ''
                @ destination env fileInfo),
      Request index (url fileInfo)]"

definition downloadFile_settle :: "env \<Rightarrow> link \<Rightarrow> nat \<Rightarrow> string promised" where
  "downloadFile_settle env fileInfo index =
     (case axios_stream env index fileInfo of
        AxiosRejects e \<Rightarrow>
          (Some (Inl e), [Log Err (''['' @ decimal index @ ''] Error downloading '' @ url fileInfo
                                   @ '': '' @ message e)])
      | WriterErrors e \<Rightarrow> (Some (Inl e), [CreateWriteStream (destination env fileInfo)])
      | WriterCloses \<Rightarrow>
          (Some (Inr (destination env fileInfo)),
           [CreateWriteStream (destination env fileInfo),
            Log Info (''['' @ decimal index @ ''] Successfully downloaded: ''
                      @ sanitizedFilename (filename fileInfo))])
      | ResponseBreaks \<Rightarrow> (None, [CreateWriteStream (destination env fileInfo)]))"

definition downloadFile :: "env \<Rightarrow> link \<Rightarrow> nat \<Rightarrow> string promised" where
  "downloadFile env fileInfo index =
     (case downloadFile_settle env fileInfo index of
        (r, t) \<Rightarrow> (r, downloadFile_start env fileInfo index @ t))"

record results =
  success :: "downloaded list"
  failed :: "failure list"

text \<open>The \<^verbatim>\<open>.then\<close> and \<^verbatim>\<open>.catch\<close> callbacks of one download: when it settles, its
  outcome is pushed onto one of the two arrays.  For a download that stays pending
  neither callback runs, and only its events are recorded.\<close>

definition settle :: "env \<Rightarrow> results \<times> trace \<Rightarrow> nat \<times> link \<Rightarrow> results \<times> trace" where
  "settle env st task =
     (case task of (index, l) \<Rightarrow>
        (case downloadFile_settle env l index of
           (Some (Inr path), t) \<Rightarrow>
             ((fst st)\<lparr>success := success (fst st)
                         @ [\<lparr>url = url l, filename = filename l, filePath = path\<rparr>]\<rparr>,
              snd st @ t @ [Settled index])
         | (Some (Inl e), t) \<Rightarrow>
             ((fst st)\<lparr>failed := failed (fst st)
                         @ [\<lparr>url = url l, filename = filename l, error = message e\<rparr>]\<rparr>,
              snd st @ t @ [Settled index])
         | (None, t) \<Rightarrow> (fst st, snd st @ t)))"

text \<open>
  One batch: \<^verbatim>\<open>batch.map\<close> calls \<^verbatim>\<open>downloadFile(link, i + batchIndex + 1)\<close> for every
  link of the batch, in order; then the downloads have their later events in the order of
  their completion times (the earlier call first among equal times).
  \<^verbatim>\<open>await Promise.all(promises)\<close> returns once all have settled, and never when one of
  them stays pending.
\<close>

definition batchTasks :: "nat \<Rightarrow> link list \<Rightarrow> (nat \<times> link) list" where
  "batchTasks i batch = map (\<lambda>(batchIndex, l). (i + batchIndex + 1, l)) (enumerate 0 batch)"

definition completionOrder :: "env \<Rightarrow> (nat \<times> link) list \<Rightarrow> (nat \<times> link) list" where
  "completionOrder env tasks = sort_key (\<lambda>task. finish env (fst task)) tasks"

definition downloadBatch :: "env \<Rightarrow> nat \<Rightarrow> link list \<Rightarrow> results \<times> trace \<Rightarrow> results \<times> trace" where
  "downloadBatch env i batch st =
     foldl (settle env)
       (fst st, snd st @ concat (map (\<lambda>(index, l). downloadFile_start env l index) (batchTasks i batch)))
       (completionOrder env (batchTasks i batch))"

definition settles :: "env \<Rightarrow> nat \<times> link \<Rightarrow> bool" where
  "settles env task \<longleftrightarrow> axios_stream env (fst task) (snd task) \<noteq> ResponseBreaks"

text \<open>The \<^verbatim>\<open>for\<close> loop of \<^verbatim>\<open>downloadAllFiles\<close>, with \<open>i\<close> its counter.  It returns the
  results and the trace it has come to, and whether it has ended: it has not when it
  waits for a batch with a download that stays pending.\<close>

function downloadLoop :: "env \<Rightarrow> link list \<Rightarrow> nat \<Rightarrow> results \<times> trace \<Rightarrow> (results \<times> trace) \<times> bool" where
  "downloadLoop env links i st =
     (if i < length links then
        (let batch = take CONFIG_maxConcurrentDownloads (drop i links);
             st1 = (fst st,
                    snd st @ [Log Info (''Processing batch ''
                                @ decimal (i div CONFIG_maxConcurrentDownloads + 1) @ '': ''
                                @ decimal (length batch) @ '' files'')]);
             st2 = downloadBatch env i batch st1
         in if list_all (settles env) (batchTasks i batch)
            then downloadLoop env links (i + CONFIG_maxConcurrentDownloads) st2
            else (st2, False))
      else (st, True))"
  by pat_completeness auto
termination
  by (relation "measure (\<lambda>(env, links, i, st). length links - i)")
     (auto simp: CONFIG_maxConcurrentDownloads_def)

definition initial :: "results \<times> trace" where
  "initial = (\<lparr>success = [], failed = []\<rparr>, [])"

text \<open>\<^verbatim>\<open>downloadAllFiles\<close> returns the results when the loop has ended; \<open>None\<close> when it
  never returns.\<close>

definition downloadAllFiles :: "env \<Rightarrow> link list \<Rightarrow> results option \<times> trace" where
  "downloadAllFiles env links =
     (case downloadLoop env links 0 initial of
        ((res, t), ended) \<Rightarrow>
          if ended then
            (Some res,
             t @ [Log Info (''Download summary: '' @ decimal (length (success res))
                            @ '' successful, '' @ decimal (length (failed res)) @ '' failed'')])
          else (None, t))"

section \<open>Post-processing\<close>

text \<open>The body of the \<^verbatim>\<open>for (const file of downloadResults.success)\<close> loop: the
  \<^verbatim>\<open>try\<close> block, with \<open>name\<close> for \<^verbatim>\<open>path.basename(file.filePath)\<close>, and the block with its
  \<^verbatim>\<open>catch\<close>.\<close>

definition unzipCommand :: "string \<Rightarrow> string \<Rightarrow> string" where
  "unzipCommand archive extractDir =
     ''unzip -o '' @ dq @ archive @ dq @ '' -d '' @ dq @ extractDir @ dq"

definition processFileTry :: "env \<Rightarrow> downloaded \<Rightarrow> string \<Rightarrow> unit io" where
  "processFileTry env file name =
     (if endsWith (toLowerCase name) ''.zip'' then
        andThen (logger Info (''Extracting zip file: '' @ name)) (\<lambda>_.
          let extractDir = path_join env (fileProcessingDir env) (path_basename_ext env name ''.zip'')
          in andThen (if \<not> fs_existsSync env extractDir then mkdirSync env extractDir
                      else (Inr (), [])) (\<lambda>_.
               case exec env (unzipCommand (filePath file) extractDir) of
                 Inl e \<Rightarrow>
                   (Inl e, [Exec (unzipCommand (filePath file) extractDir),
                            Log Err (''Error extracting '' @ name @ '': '' @ message e)])
               | Inr out \<Rightarrow>
                   (Inr (), [Exec (unzipCommand (filePath file) extractDir),
                             Log Info (''Successfully extracted '' @ name @ '' to '' @ extractDir)])))
      else
        andThen (copyFileSync env (filePath file) (path_join env (fileProcessingDir env) name)) (\<lambda>_.
          logger Info (''Copied '' @ name @ '' to processing directory'')))"

definition processFile :: "env \<Rightarrow> downloaded \<Rightarrow> unit io" where
  "processFile env file =
     (let name = path_basename env (filePath file) in
      tryCatch (processFileTry env file name)
        (\<lambda>e. logger Err (''Error processing file '' @ name @ '': '' @ message e)))"

fun forOf :: "('a \<Rightarrow> unit io) \<Rightarrow> 'a list \<Rightarrow> unit io" where
  "forOf body [] = (Inr (), [])"
| "forOf body (x # xs) =
     (case body x of
        (Inl e, t) \<Rightarrow> (Inl e, t)
      | (Inr u, t) \<Rightarrow> (case forOf body xs of (r, t') \<Rightarrow> (r, t @ t')))"

definition processDownloadedFiles :: "env \<Rightarrow> results \<Rightarrow> unit io" where
  "processDownloadedFiles env downloadResults =
     andThen (logger Info ''Processing downloaded files...'') (\<lambda>_.
     andThen (forOf (processFile env) (success downloadResults)) (\<lambda>_.
       logger Info ''Finished processing downloaded files''))"

section \<open>The run summary\<close>

record metadata =
  timestamp :: string
  downloadDirectory :: string
  totalFiles :: nat
  successfulDownloads :: nat
  failedDownloads :: nat
  failedFiles :: "string list"

text \<open>The object literal \<^verbatim>\<open>metadata\<close> of \<^verbatim>\<open>saveMetadata\<close>.\<close>

definition metadataOf :: "env \<Rightarrow> results \<Rightarrow> metadata" where
  "metadataOf env downloadResults =
     \<lparr>timestamp = now env,
      downloadDirectory = downloadDir env,
      totalFiles = length (success downloadResults) + length (failed downloadResults),
      successfulDownloads = length (success downloadResults),
      failedDownloads = length (failed downloadResults),
      failedFiles = map filename (failed downloadResults)\<rparr>"

definition metadataPath :: "env \<Rightarrow> string" where
  "metadataPath env = path_join env (downloadDir env) ''_metadata.json''"

definition saveMetadata :: "env \<Rightarrow> results \<Rightarrow> metadata io" where
  "saveMetadata env downloadResults =
     andThen (writeFileSync env (metadataPath env)) (\<lambda>_.
     andThen (logger Info (''Saved download metadata to '' @ metadataPath env)) (\<lambda>_.
       (Inr (metadataOf env downloadResults), [])))"

section \<open>The run\<close>

text \<open>The body of \<^verbatim>\<open>main\<close> has finished, or waits at
  \<^verbatim>\<open>await downloadAllFiles(links)\<close> for ever.\<close>

datatype progress = Finished | Waiting

definition mainBody :: "env \<Rightarrow> progress io" where
  "mainBody env =
     andThen (setupDirectories env) (\<lambda>_.
     andThen (getLinks env) (\<lambda>links.
       if length links = 0 then
         andThen (logger Warn ''No download links found. Job completed with no downloads.'') (\<lambda>_.
           (Inr Finished, []))
       else
         (case downloadAllFiles env links of
            (None, t) \<Rightarrow> (Inr Waiting, t)
          | (Some downloadResults, t) \<Rightarrow>
              andThen (Inr (), t) (\<lambda>_.
              andThen (processDownloadedFiles env downloadResults) (\<lambda>_.
              andThen (saveMetadata env downloadResults) (\<lambda>m.
              andThen (logger Info (''=== Job completed successfully: ''
                                    @ decimal (successfulDownloads m) @ ''/''
                                    @ decimal (totalFiles m) @ '' files downloaded ==='')) (\<lambda>_.
                (Inr Finished, []))))))))"

text \<open>\<^verbatim>\<open>main\<close> catches every error of its body and logs it, so a run is its trace.\<close>

definition main :: "env \<Rightarrow> trace" where
  "main env =
     Log Info ''=== Starting price files download job ===''
     # snd (tryCatch (mainBody env)
              (\<lambda>e. andThen (logger Err (''Job failed: '' @ message e)) (\<lambda>_. (Inr Finished, []))))"

section \<open>Notions used in the statements\<close>

text \<open>The downloads that \<^verbatim>\<open>downloadAllFiles\<close> makes for a list of links: link number \<open>p\<close>
  (from 0) is download number \<open>p + 1\<close>.\<close>

definition allTasks :: "link list \<Rightarrow> (nat \<times> link) list" where
  "allTasks links = zip [1..<Suc (length links)] links"

text \<open>The world lets a download succeed when the write stream closes without an error;
  it lets it fail with the error of the rejected request or of the write stream; and it
  leaves it pending when the response breaks off.\<close>

fun replyError :: "reply \<Rightarrow> js_error option" where
  "replyError (AxiosRejects e) = Some e"
| "replyError (WriterErrors e) = Some e"
| "replyError WriterCloses = None"
| "replyError ResponseBreaks = None"

definition succeeds :: "env \<Rightarrow> nat \<times> link \<Rightarrow> bool" where
  "succeeds env task \<longleftrightarrow> axios_stream env (fst task) (snd task) = WriterCloses"

definition fails :: "env \<Rightarrow> nat \<times> link \<Rightarrow> bool" where
  "fails env task \<longleftrightarrow> replyError (axios_stream env (fst task) (snd task)) \<noteq> None"

definition successEntry :: "env \<Rightarrow> nat \<times> link \<Rightarrow> downloaded" where
  "successEntry env task =
     \<lparr>url = url (snd task), filename = filename (snd task), filePath = destination env (snd task)\<rparr>"

definition failureEntry :: "env \<Rightarrow> nat \<times> link \<Rightarrow> failure" where
  "failureEntry env task =
     \<lparr>url = url (snd task), filename = filename (snd task),
      error = (case replyError (axios_stream env (fst task) (snd task)) of
                 Some e \<Rightarrow> message e | None \<Rightarrow> [])\<rparr>"

text \<open>The downloads of the batch that starts at link number \<open>i\<close>, and the state of the
  loop after that batch.\<close>

definition batchAt :: "link list \<Rightarrow> nat \<Rightarrow> (nat \<times> link) list" where
  "batchAt links i = batchTasks i (take CONFIG_maxConcurrentDownloads (drop i links))"

definition afterBatch :: "env \<Rightarrow> link list \<Rightarrow> nat \<Rightarrow> results \<times> trace \<Rightarrow> results \<times> trace" where
  "afterBatch env links i st =
     downloadBatch env i (take CONFIG_maxConcurrentDownloads (drop i links))
       (fst st,
        snd st @ [Log Info (''Processing batch ''
                    @ decimal (i div CONFIG_maxConcurrentDownloads + 1) @ '': ''
                    @ decimal (length (take CONFIG_maxConcurrentDownloads (drop i links)))
                    @ '' files'')])"

text \<open>The link inside an entry of the results.\<close>

definition linkOf :: "'a link_scheme \<Rightarrow> link" where
  "linkOf x = \<lparr>url = url x, filename = filename x\<rparr>"

text \<open>The events of one download: those of its call, and those after its call.\<close>

definition startTrace :: "env \<Rightarrow> nat \<times> link \<Rightarrow> trace" where
  "startTrace env task = downloadFile_start env (snd task) (fst task)"

definition settleTrace :: "env \<Rightarrow> nat \<times> link \<Rightarrow> trace" where
  "settleTrace env task =
     snd (downloadFile_settle env (snd task) (fst task))
     @ (if settles env task then [Settled (fst task)] else [])"

definition requestOf :: "nat \<times> link \<Rightarrow> event" where
  "requestOf task = Request (fst task) (url (snd task))"

text \<open>The downloads that have settled in a trace.\<close>

fun settledIn :: "trace \<Rightarrow> nat set" where
  "settledIn [] = {}"
| "settledIn (Settled p # t) = insert p (settledIn t)"
| "settledIn (e # t) = settledIn t"

text \<open>The batch of a download, counted from 0.\<close>

definition batchOf :: "nat \<Rightarrow> nat" where
  "batchOf index = (index - 1) div CONFIG_maxConcurrentDownloads"

text \<open>
  A monitor for the barrier between batches.  It reads a trace with the set of the
  downloads that have settled so far, and accepts a request only when every download
  of the earlier batches is in that set.
\<close>

fun barrier :: "nat set \<Rightarrow> trace \<Rightarrow> bool" where
  "barrier settled [] = True"
| "barrier settled (Request q u # t) =
     (list_all (\<lambda>p. p \<in> settled) [1..<Suc (CONFIG_maxConcurrentDownloads * batchOf q)]
      \<and> barrier settled t)"
| "barrier settled (Settled p # t) = barrier (insert p settled) t"
| "barrier settled (e # t) = barrier settled t"

fun isRequest :: "event \<Rightarrow> bool" where
  "isRequest (Request q u) = True"
| "isRequest e = False"

text \<open>An absolute URL starts with a scheme and a colon (RFC 3986): a letter, then
  letters, digits, \<open>+\<close>, \<open>-\<close> or \<open>.\<close>.\<close>

definition isLetter :: "char \<Rightarrow> bool" where
  "isLetter c \<longleftrightarrow> (97 \<le> code c \<and> code c \<le> 122) \<or> (65 \<le> code c \<and> code c \<le> 90)"

definition isAbsoluteUrl :: "string \<Rightarrow> bool" where
  "isAbsoluteUrl u =
     (let scheme = takeWhile (\<lambda>c. c \<noteq> CHR '':'') u
      in scheme \<noteq> [] \<and> length scheme < length u \<and> isLetter (hd scheme)
         \<and> list_all (\<lambda>c. isLetter c \<or> (48 \<le> code c \<and> code c \<le> 57) \<or> c \<in> {CHR ''+'', CHR ''-'', CHR ''.''}) scheme)"

section \<open>A sample environment\<close>

text \<open>
  Three anchors of a page, and a world in which every directory exists, every file
  operation and every command succeeds, a POSIX \<^verbatim>\<open>path\<close> module joins with a slash, and
  all downloads succeed except the second, which times out.  Later downloads of a
  batch finish first.
\<close>

definition sampleElements :: "element list" where
  "sampleElements =
     [\<lparr>attr_href = Some ''/files/a.csv'', text_content = '' Store A '', attr_download = Some ''a.csv''\<rparr>,
      \<lparr>attr_href = Some ''files/b c.zip'', text_content = ''  '', attr_download = None\<rparr>,
      \<lparr>attr_href = Some ''https://x.hr/'', text_content = [], attr_download = Some []\<rparr>]"

definition sampleEnv :: env where
  "sampleEnv =
     \<lparr>downloadDir = ''/app/downloads/2025-05-15'',
      fileProcessingDir = ''/app/processing'',
      now = ''2025-05-15T06:00:00.000Z'',
      path_join = (\<lambda>dir name. dir @ ''/'' @ name),
      path_basename = (\<lambda>p. last (split_slash p)),
      path_basename_ext = (\<lambda>name ext. if endsWith name ext \<and> name \<noteq> ext
                                         then take (length name - length ext) name else name),
      fs_existsSync = (\<lambda>_. True),
      fs_mkdirSync = (\<lambda>_. None),
      fs_writeFileSync = (\<lambda>_. None),
      fs_copyFileSync = (\<lambda>_ _. None),
      axios_get = (\<lambda>_. Inr ''<html>''),
      cheerio_select = (\<lambda>html selector. Inr sampleElements),
      exec = (\<lambda>_. Inr []),
      axios_stream = (\<lambda>index l. if index = 2 then AxiosRejects (Error ''timeout of 120000ms exceeded'')
                                  else WriterCloses),
      finish = (\<lambda>index. 10 - index)\<rparr>"

definition sampleLinks :: "link list" where
  "sampleLinks =
     [\<lparr>url = ''https://www.konzum.hr/files/a.csv'', filename = ''a.csv''\<rparr>,
      \<lparr>url = ''files/b c.zip'', filename = ''b c.zip''\<rparr>,
      \<lparr>url = ''https://x.hr/'', filename = ''file-2.csv''\<rparr>]"

text \<open>Variants of the sample world: one in which the page request is refused and
  curl fails too, one in which all downloads succeed and unzip fails, and one in which
  the response of the second download breaks off after its headers; and the archive of
  the sample page once it is downloaded.\<close>

definition stalledEnv :: env where
  "stalledEnv = sampleEnv\<lparr>axios_stream := \<lambda>index l. if index = 2 then ResponseBreaks
                                                    else WriterCloses\<rparr>"

definition blockedEnv :: env where
  "blockedEnv = sampleEnv\<lparr>axios_get := \<lambda>_. Inl (Error ''Request failed with status code 403''),
                          exec := \<lambda>_. Inl (Error ''Command failed: curl'')\<rparr>"

definition unzipFailsEnv :: env where
  "unzipFailsEnv = sampleEnv\<lparr>axios_stream := \<lambda>index l. WriterCloses,
                             exec := \<lambda>_. Inl (Error ''Command failed: unzip'')\<rparr>"

definition sampleArchive :: downloaded where
  "sampleArchive = \<lparr>url = ''files/b c.zip'', filename = ''b c.zip'',
                     filePath = ''/app/downloads/2025-05-15/b_c.zip''\<rparr>"

text \<open>What \<^verbatim>\<open>downloadAllFiles\<close> returns for the links of the sample page in the sample
  world, and in the world where all downloads succeed.\<close>

definition sampleResults :: results where
  "sampleResults =
     \<lparr>success =
        [\<lparr>url = ''https://x.hr/'', filename = ''file-2.csv'',
          filePath = ''/app/downloads/2025-05-15/file-2.csv''\<rparr>,
         \<lparr>url = ''https://www.konzum.hr/files/a.csv'', filename = ''a.csv'',
          filePath = ''/app/downloads/2025-05-15/a.csv''\<rparr>],
      failed =
        [\<lparr>url = ''files/b c.zip'', filename = ''b c.zip'',
          error = ''timeout of 120000ms exceeded''\<rparr>]\<rparr>"

definition sampleDownloaded :: results where
  "sampleDownloaded =
     \<lparr>success =
        [\<lparr>url = ''https://x.hr/'', filename = ''file-2.csv'',
          filePath = ''/app/downloads/2025-05-15/file-2.csv''\<rparr>,
         sampleArchive,
         \<lparr>url = ''https://www.konzum.hr/files/a.csv'', filename = ''a.csv'',
          filePath = ''/app/downloads/2025-05-15/a.csv''\<rparr>],
      failed = []\<rparr>"

text \<open>Seven links, which make two batches.\<close>

definition sevenLinks :: "link list" where
  "sevenLinks =
     map (\<lambda>k. \<lparr>url = ''https://www.konzum.hr/files/'' @ decimal k @ ''.csv'',
               filename = decimal k @ ''.csv''\<rparr>) [1..<8]"

text \<open>The recursive equations of the two functions defined by \<^theory_text>\<open>function\<close> are applied
  by hand.\<close>

declare downloadLoop.simps [simp del] decimal.simps [simp del]

section \<open>Properties of filename sanitization\<close>

lemma underscore_not_in_class: "\<not> in_class CHR ''_''"
  by (simp add: in_class_def code_def)

lemma sanitizedFilename_idem:
  "sanitizedFilename (sanitizedFilename x) = sanitizedFilename x"
  by (simp add: sanitizedFilename_def underscore_not_in_class)

lemma sanitizedFilename_chars:
  "list_all (\<lambda>c. in_class c \<or> c = CHR ''_'') (sanitizedFilename x)"
  by (induction x) (simp_all add: sanitizedFilename_def)

text \<open>
  C3, as the code has it.  Sanitizing twice is sanitizing once, and every character of
  a sanitized name is a letter, a digit, a dot, a hyphen or the underscore that replaced
  a character outside that class.
\<close>

theorem sanitizedFilename_idempotent_charset:
  "sanitizedFilename (sanitizedFilename x) = sanitizedFilename x
   \<and> list_all (\<lambda>c. in_class c \<or> c = CHR ''_'') (sanitizedFilename x)"
  by (simp add: sanitizedFilename_idem sanitizedFilename_chars)

text \<open>The claim of C3 as it is written asks for characters of the class only; a space
  is replaced by an underscore, which is not in the class.\<close>

theorem sanitizedFilename_underscore_counterexample:
  "sanitizedFilename ''a b'' = ''a_b'' \<and> \<not> list_all in_class (sanitizedFilename ''a b'')"
  by (simp add: sanitizedFilename_def in_class_def code_def)

section \<open>Properties of downloading all files\<close>

lemma batchTasks_zip: "batchTasks i batch = zip [Suc i..<Suc i + length batch] batch"
proof -
  have "map (\<lambda>(b, l). (i + b + 1, l)) (zip [0..<length batch] batch)
        = zip (map (\<lambda>b. i + b + 1) [0..<length batch]) batch"
    by (simp add: zip_map1 case_prod_unfold)
  moreover have "map (\<lambda>b. i + b + 1) [0..<length batch] = [Suc i..<Suc i + length batch]"
    by (induction batch rule: rev_induct) simp_all
  ultimately show ?thesis
    by (simp add: batchTasks_def enumerate_eq_zip)
qed

lemma allTasks_batch:
  "batchTasks i (take n (drop i links)) = take n (drop i (allTasks links))"
proof -
  have "take n (drop i (allTasks links))
        = zip (take n [Suc i..<Suc (length links)]) (take n (drop i links))"
    by (simp add: allTasks_def drop_zip take_zip)
  also have "\<dots> = zip [Suc i..<Suc i + length (take n (drop i links))] (take n (drop i links))"
    by (rule nth_equalityI) (auto simp: min_def)
  finally show ?thesis
    by (simp add: batchTasks_zip)
qed

lemma batchAt_eq:
  "batchAt links i = take CONFIG_maxConcurrentDownloads (drop i (allTasks links))"
  by (simp add: batchAt_def allTasks_batch)

lemma take_allTasks_step:
  "take (i + CONFIG_maxConcurrentDownloads) (allTasks links)
   = take i (allTasks links) @ batchAt links i"
  by (simp add: batchAt_eq take_add)

lemma set_batchAt: "set (batchAt links i) \<subseteq> set (allTasks links)"
  unfolding batchAt_eq by (meson set_take_subset set_drop_subset subset_trans)

lemma length_allTasks: "length (allTasks links) = length links"
  by (simp only: allTasks_def length_zip length_upt)

lemma settledIn_append: "settledIn (t1 @ t2) = settledIn t1 \<union> settledIn t2"
  by (induction t1 rule: settledIn.induct) auto

lemma settledIn_iff: "p \<in> settledIn t \<longleftrightarrow> Settled p \<in> set t"
  by (induction t rule: settledIn.induct) auto

lemma barrier_append:
  "barrier S (t1 @ t2) \<longleftrightarrow> barrier S t1 \<and> barrier (S \<union> settledIn t1) t2"
  by (induction S t1 rule: barrier.induct) auto

lemma settledIn_settleTrace:
  "settledIn (settleTrace env task) = (if settles env task then {fst task} else {})"
  by (cases "axios_stream env (fst task) (snd task)")
     (simp_all add: settleTrace_def downloadFile_settle_def settles_def)

lemma settledIn_startTrace: "settledIn (startTrace env task) = {}"
  by (simp add: startTrace_def downloadFile_start_def)

lemma barrier_settleTrace: "barrier S (settleTrace env task)"
  by (cases "axios_stream env (fst task) (snd task)")
     (simp_all add: settleTrace_def downloadFile_settle_def settles_def)

lemma barrier_startTrace:
  "barrier S (startTrace env task)
   \<longleftrightarrow> list_all (\<lambda>p. p \<in> S) [1..<Suc (CONFIG_maxConcurrentDownloads * batchOf (fst task))]"
  by (simp add: startTrace_def downloadFile_start_def)

lemma settledIn_starts: "settledIn (concat (map (startTrace env) tasks)) = {}"
  by (induction tasks) (simp_all add: settledIn_append settledIn_startTrace)

lemma settledIn_settles:
  "settledIn (concat (map (settleTrace env) tasks)) = fst ` {task \<in> set tasks. settles env task}"
  by (induction tasks) (auto simp: settledIn_append settledIn_settleTrace)

lemma barrier_settles: "barrier S (concat (map (settleTrace env) tasks))"
  by (induction tasks arbitrary: S) (simp_all add: barrier_append barrier_settleTrace)

lemma barrier_starts:
  "barrier S (concat (map (startTrace env) tasks))
   \<longleftrightarrow> (\<forall>task \<in> set tasks. list_all (\<lambda>p. p \<in> S) [1..<Suc (CONFIG_maxConcurrentDownloads * batchOf (fst task))])"
  by (induction tasks) (simp_all add: barrier_append barrier_startTrace settledIn_startTrace)

lemma settle_trace: "snd (settle env st task) = snd st @ settleTrace env task"
  by (cases task; cases "axios_stream env (fst task) (snd task)")
     (simp_all add: settle_def settleTrace_def downloadFile_settle_def settles_def)

lemma foldl_settle_trace:
  "snd (foldl (settle env) st tasks) = snd st @ concat (map (settleTrace env) tasks)"
  by (induction tasks arbitrary: st) (simp_all add: settle_trace)

lemma downloadBatch_trace:
  "snd (downloadBatch env i batch st)
   = snd st @ concat (map (startTrace env) (batchTasks i batch))
     @ concat (map (settleTrace env) (completionOrder env (batchTasks i batch)))"
proof -
  have "(\<lambda>(index, l). downloadFile_start env l index) = startTrace env"
    by (simp add: fun_eq_iff startTrace_def)
  then show ?thesis
    by (simp add: downloadBatch_def foldl_settle_trace)
qed

lemma afterBatch_trace:
  "snd (afterBatch env links i st)
   = snd st @ [Log Info (''Processing batch ''
                 @ decimal (i div CONFIG_maxConcurrentDownloads + 1) @ '': ''
                 @ decimal (length (take CONFIG_maxConcurrentDownloads (drop i links)))
                 @ '' files'')]
     @ concat (map (startTrace env) (batchAt links i))
     @ concat (map (settleTrace env) (completionOrder env (batchAt links i)))"
  by (simp add: afterBatch_def batchAt_def downloadBatch_trace)

lemma set_completionOrder: "set (completionOrder env tasks) = set tasks"
  by (simp add: completionOrder_def)

lemma mset_completionOrder: "mset (completionOrder env tasks) = mset tasks"
  by (simp add: completionOrder_def)

lemma fst_batchTasks: "fst ` set (batchTasks i batch) = {Suc i..i + length batch}"
proof -
  have "map fst (batchTasks i batch) = [Suc i..<Suc i + length batch]"
    by (simp add: batchTasks_zip)
  then have "set (map fst (batchTasks i batch)) = set [Suc i..<Suc i + length batch]"
    by simp
  then show ?thesis
    by (simp only: set_map set_upt) auto
qed

lemma batchOf_in_batch:
  assumes "i mod CONFIG_maxConcurrentDownloads = 0" "Suc i \<le> q" "q \<le> i + CONFIG_maxConcurrentDownloads"
  shows "CONFIG_maxConcurrentDownloads * batchOf q = i"
proof -
  from assms obtain k where k: "i = 5 * k"
    by (auto simp: CONFIG_maxConcurrentDownloads_def)
  from assms have "(q - 1) div 5 = k"
    unfolding k CONFIG_maxConcurrentDownloads_def by simp
  then show ?thesis
    by (simp add: batchOf_def CONFIG_maxConcurrentDownloads_def k)
qed

text \<open>The three ways of the loop.\<close>

lemma downloadLoop_continue:
  "i < length links \<Longrightarrow> list_all (settles env) (batchAt links i) \<Longrightarrow>
   downloadLoop env links i st
   = downloadLoop env links (i + CONFIG_maxConcurrentDownloads) (afterBatch env links i st)"
  by (subst downloadLoop.simps) (simp add: Let_def afterBatch_def batchAt_def)

lemma downloadLoop_waits:
  "i < length links \<Longrightarrow> \<not> list_all (settles env) (batchAt links i) \<Longrightarrow>
   downloadLoop env links i st = (afterBatch env links i st, False)"
  by (subst downloadLoop.simps) (simp add: Let_def afterBatch_def batchAt_def)

lemma downloadLoop_stop: "\<not> i < length links \<Longrightarrow> downloadLoop env links i st = (st, True)"
  by (subst downloadLoop.simps) simp

text \<open>
  An invariant of the loop, kept by every batch whose downloads all settle, holds when
  the loop has ended, with the counter past the last link.  When the loop waits for
  ever, its state is that after the batch with the pending download, reached from a
  state with the invariant.
\<close>

lemma downloadLoop_invariant:
  assumes init: "I i st"
    and step: "\<And>i st. i < length links \<Longrightarrow> I i st \<Longrightarrow> list_all (settles env) (batchAt links i)
                 \<Longrightarrow> I (i + CONFIG_maxConcurrentDownloads) (afterBatch env links i st)"
    and wait: "\<And>i st. i < length links \<Longrightarrow> I i st \<Longrightarrow> \<not> list_all (settles env) (batchAt links i)
                 \<Longrightarrow> Q (afterBatch env links i st)"
  shows "if snd (downloadLoop env links i st)
         then \<exists>j. length links \<le> j \<and> I j (fst (downloadLoop env links i st))
         else Q (fst (downloadLoop env links i st))"
  using assms
proof (induction env links i st rule: downloadLoop.induct)
  case (1 env links i st)
  note init = "1.prems"(1) and step = "1.prems"(2) and wait = "1.prems"(3)
  show ?case
  proof (cases "i < length links")
    case True
    show ?thesis
    proof (cases "list_all (settles env) (batchAt links i)")
      case all: True
      have "list_all (settles env)
              (batchTasks i (take CONFIG_maxConcurrentDownloads (drop i links)))"
        using all by (simp add: batchAt_def)
      from "1.IH" [OF True refl refl refl this, folded afterBatch_def,
                   OF step [OF True init all] step wait]
      show ?thesis
        unfolding downloadLoop_continue [OF True all] .
    next
      case False
      with wait [OF True init] show ?thesis
        by (simp add: downloadLoop_waits [OF True])
    qed
  next
    case False
    with init have "length links \<le> i \<and> I i st"
      by simp
    then show ?thesis
      unfolding downloadLoop_stop [OF False] by auto
  qed
qed

lemma settle_success:
  "success (fst (settle env st task))
   = success (fst st) @ map (successEntry env) (filter (succeeds env) [task])"
  by (cases task; cases "axios_stream env (fst task) (snd task)")
     (simp_all add: settle_def downloadFile_settle_def succeeds_def successEntry_def)

lemma settle_failed:
  "failed (fst (settle env st task))
   = failed (fst st) @ map (failureEntry env) (filter (fails env) [task])"
  by (cases task; cases "axios_stream env (fst task) (snd task)")
     (simp_all add: settle_def downloadFile_settle_def fails_def failureEntry_def)

lemma foldl_settle_success:
  "success (fst (foldl (settle env) st tasks))
   = success (fst st) @ map (successEntry env) (filter (succeeds env) tasks)"
  by (induction tasks arbitrary: st) (simp_all add: settle_success)

lemma foldl_settle_failed:
  "failed (fst (foldl (settle env) st tasks))
   = failed (fst st) @ map (failureEntry env) (filter (fails env) tasks)"
  by (induction tasks arbitrary: st) (simp_all add: settle_failed)

lemma afterBatch_success:
  "success (fst (afterBatch env links i st))
   = success (fst st)
     @ map (successEntry env) (filter (succeeds env) (completionOrder env (batchAt links i)))"
  by (simp add: afterBatch_def batchAt_def downloadBatch_def foldl_settle_success)

lemma afterBatch_failed:
  "failed (fst (afterBatch env links i st))
   = failed (fst st)
     @ map (failureEntry env) (filter (fails env) (completionOrder env (batchAt links i)))"
  by (simp add: afterBatch_def batchAt_def downloadBatch_def foldl_settle_failed)

text \<open>\<^verbatim>\<open>downloadAllFiles\<close> by the end of its loop.\<close>

lemma downloadAllFiles_Some:
  "fst (downloadAllFiles env links) = Some r
   \<longleftrightarrow> snd (downloadLoop env links 0 initial) \<and> r = fst (fst (downloadLoop env links 0 initial))"
  by (auto simp: downloadAllFiles_def case_prod_unfold)

lemma downloadAllFiles_None:
  "fst (downloadAllFiles env links) = None \<longleftrightarrow> \<not> snd (downloadLoop env links 0 initial)"
  by (simp add: downloadAllFiles_def case_prod_unfold)

lemma downloadAllFiles_snd:
  "snd (downloadAllFiles env links)
   = snd (fst (downloadLoop env links 0 initial))
     @ (if snd (downloadLoop env links 0 initial)
        then [Log Info (''Download summary: ''
                @ decimal (length (success (fst (fst (downloadLoop env links 0 initial)))))
                @ '' successful, ''
                @ decimal (length (failed (fst (fst (downloadLoop env links 0 initial)))))
                @ '' failed'')]
        else [])"
  by (simp add: downloadAllFiles_def case_prod_unfold)

text \<open>\<^verbatim>\<open>downloadAllFiles\<close> returns exactly when every download settles.\<close>

lemma downloadLoop_ends_iff:
  "snd (downloadLoop env links 0 initial) \<longleftrightarrow> list_all (settles env) (allTasks links)"
proof -
  have "if snd (downloadLoop env links 0 initial)
        then \<exists>j. length links \<le> j
               \<and> list_all (settles env) (take j (allTasks links))
        else \<not> list_all (settles env) (allTasks links)"
  proof (rule downloadLoop_invariant
      [where I = "\<lambda>i st. list_all (settles env) (take i (allTasks links))"
         and Q = "\<lambda>st. \<not> list_all (settles env) (allTasks links)"])
    show "list_all (settles env) (take 0 (allTasks links))"
      by simp
    show "list_all (settles env) (take (i + CONFIG_maxConcurrentDownloads) (allTasks links))"
      if "list_all (settles env) (take i (allTasks links))"
        "list_all (settles env) (batchAt links i)" for i
      using that by (simp add: take_allTasks_step)
    show "\<not> list_all (settles env) (allTasks links)"
      if "\<not> list_all (settles env) (batchAt links i)" for i
      using that set_batchAt [of links i] by (auto simp: list_all_iff)
  qed
  then show ?thesis
    by (auto simp: length_allTasks split: if_splits)
qed

lemma downloadAllFiles_returns_iff:
  "fst (downloadAllFiles env links) \<noteq> None \<longleftrightarrow> list_all (settles env) (allTasks links)"
  by (simp add: downloadAllFiles_None downloadLoop_ends_iff)

lemma downloadAllFiles_success:
  assumes "fst (downloadAllFiles env links) = Some r"
  shows "mset (success r)
         = image_mset (successEntry env) (filter_mset (succeeds env) (mset (allTasks links)))"
proof -
  let ?I = "\<lambda>i st. mset (success (fst st))
              = image_mset (successEntry env) (filter_mset (succeeds env) (mset (take i (allTasks links))))"
  have "if snd (downloadLoop env links 0 initial)
        then \<exists>j. length links \<le> j \<and> ?I j (fst (downloadLoop env links 0 initial))
        else True"
    by (rule downloadLoop_invariant [where Q = "\<lambda>st. True"])
       (simp_all add: initial_def afterBatch_success take_allTasks_step mset_completionOrder)
  with assms show ?thesis
    by (auto simp: downloadAllFiles_Some length_allTasks)
qed

lemma downloadAllFiles_failed:
  assumes "fst (downloadAllFiles env links) = Some r"
  shows "mset (failed r)
         = image_mset (failureEntry env) (filter_mset (fails env) (mset (allTasks links)))"
proof -
  let ?I = "\<lambda>i st. mset (failed (fst st))
              = image_mset (failureEntry env) (filter_mset (fails env) (mset (take i (allTasks links))))"
  have "if snd (downloadLoop env links 0 initial)
        then \<exists>j. length links \<le> j \<and> ?I j (fst (downloadLoop env links 0 initial))
        else True"
    by (rule downloadLoop_invariant [where Q = "\<lambda>st. True"])
       (simp_all add: initial_def afterBatch_failed take_allTasks_step mset_completionOrder)
  with assms show ?thesis
    by (auto simp: downloadAllFiles_Some length_allTasks)
qed

lemma requests_startTrace: "filter isRequest (startTrace env task) = [requestOf task]"
  by (simp add: startTrace_def downloadFile_start_def requestOf_def)

lemma requests_settleTrace: "filter isRequest (settleTrace env task) = []"
  by (cases "axios_stream env (fst task) (snd task)")
     (simp_all add: settleTrace_def downloadFile_settle_def)

lemma requests_starts:
  "filter isRequest (concat (map (startTrace env) tasks)) = map requestOf tasks"
  by (induction tasks) (simp_all add: requests_startTrace)

lemma requests_settles: "filter isRequest (concat (map (settleTrace env) tasks)) = []"
  by (induction tasks) (simp_all add: requests_settleTrace)

text \<open>The requests of a run of \<^verbatim>\<open>downloadAllFiles\<close> are those of the first links of the
  list, in order: of all links when it returns, and of the links up to the end of the
  batch with the pending download when it does not.\<close>

lemma downloadAllFiles_requests_prefix:
  "\<exists>j. filter isRequest (snd (downloadAllFiles env links)) = map requestOf (take j (allTasks links))
      \<and> (fst (downloadAllFiles env links) \<noteq> None \<longrightarrow> length links \<le> j)"
proof -
  let ?I = "\<lambda>i st. filter isRequest (snd st) = map requestOf (take i (allTasks links))"
  have "if snd (downloadLoop env links 0 initial)
        then \<exists>j. length links \<le> j \<and> ?I j (fst (downloadLoop env links 0 initial))
        else \<exists>j. ?I j (fst (downloadLoop env links 0 initial))"
  proof (rule downloadLoop_invariant [where I = ?I and Q = "\<lambda>st. \<exists>j. ?I j st"])
    show "?I 0 initial"
      by (simp add: initial_def)
    show "?I (i + CONFIG_maxConcurrentDownloads) (afterBatch env links i st)" if "?I i st" for i st
      using that
      by (simp add: afterBatch_trace take_allTasks_step requests_starts requests_settles)
    then show "\<exists>j. ?I j (afterBatch env links i st)" if "?I i st" for i st
      using that by blast
  qed
  then show ?thesis
    by (auto simp: downloadAllFiles_snd downloadAllFiles_None split: if_splits)
qed

lemma downloadAllFiles_requests:
  assumes "fst (downloadAllFiles env links) = Some r"
  shows "filter isRequest (snd (downloadAllFiles env links)) = map requestOf (allTasks links)"
  using downloadAllFiles_requests_prefix [of env links] assms by (auto simp: length_allTasks)

lemma set_take_allTasks: "fst ` set (take i (allTasks links)) = {1..min i (length links)}"
proof -
  have "map fst (take i (allTasks links)) = [1..<Suc (min i (length links))]"
    by (rule nth_equalityI) (auto simp: allTasks_def simp del: upt_Suc)
  then have "set (map fst (take i (allTasks links))) = set [1..<Suc (min i (length links))]"
    by simp
  then show ?thesis
    by (simp only: set_map set_upt) auto
qed

lemma barrier_afterBatch:
  assumes less: "i < length links"
    and inv: "barrier {} (snd st) \<and> settledIn (snd st) = fst ` set (take i (allTasks links))
              \<and> i mod CONFIG_maxConcurrentDownloads = 0"
  shows "barrier {} (snd (afterBatch env links i st))"
proof -
  let ?n = CONFIG_maxConcurrentDownloads
  have settled: "settledIn (snd st) = {1..i}"
    using inv less by (simp add: set_take_allTasks)
  have "barrier {1..i} (concat (map (startTrace env) (batchAt links i)))"
    unfolding barrier_starts
  proof
    fix task
    assume "task \<in> set (batchAt links i)"
    then have "fst task \<in> {Suc i..i + length (take ?n (drop i links))}"
      using fst_batchTasks [of i "take ?n (drop i links)"] by (auto simp: batchAt_def)
    then have "?n * batchOf (fst task) = i"
      using inv by (intro batchOf_in_batch) auto
    then show "list_all (\<lambda>p. p \<in> {1..i}) [1..<Suc (?n * batchOf (fst task))]"
      by (auto simp: list_all_iff)
  qed
  then show ?thesis
    unfolding afterBatch_trace using inv
    by (simp add: barrier_append settled settledIn_append barrier_settles)
qed

text \<open>The monitor accepts the trace of every run of the loop, ended or not; and when the
  loop has ended, every download has settled.\<close>

lemma downloadLoop_barrier:
  "if snd (downloadLoop env links 0 initial)
   then \<exists>j. length links \<le> j
          \<and> (barrier {} (snd (fst (downloadLoop env links 0 initial)))
              \<and> settledIn (snd (fst (downloadLoop env links 0 initial)))
                  = fst ` set (take j (allTasks links))
              \<and> j mod CONFIG_maxConcurrentDownloads = 0)
   else barrier {} (snd (fst (downloadLoop env links 0 initial)))"
proof (rule downloadLoop_invariant
    [where I = "\<lambda>i st. barrier {} (snd st)
        \<and> settledIn (snd st) = fst ` set (take i (allTasks links))
        \<and> i mod CONFIG_maxConcurrentDownloads = 0"
       and Q = "\<lambda>st. barrier {} (snd st)"])
  show "barrier {} (snd initial) \<and> settledIn (snd initial) = fst ` set (take 0 (allTasks links))
        \<and> 0 mod CONFIG_maxConcurrentDownloads = 0"
    by (simp add: initial_def)
next
  fix i and st :: "results \<times> trace"
  let ?n = CONFIG_maxConcurrentDownloads
  assume less: "i < length links"
    and inv: "barrier {} (snd st) \<and> settledIn (snd st) = fst ` set (take i (allTasks links))
              \<and> i mod ?n = 0"
  show "barrier {} (snd (afterBatch env links i st))"
    using less inv by (rule barrier_afterBatch)
  assume all: "list_all (settles env) (batchAt links i)"
  have "{task \<in> set (batchAt links i). settles env task} = set (batchAt links i)"
    using all by (auto simp: list_all_iff)
  then have "settledIn (snd (afterBatch env links i st))
             = fst ` set (take (i + ?n) (allTasks links))"
    unfolding afterBatch_trace
    by (simp add: settledIn_append settledIn_starts settledIn_settles set_completionOrder
          take_allTasks_step image_Un inv)
  moreover have "(i + ?n) mod ?n = 0"
    using inv by simp
  ultimately show "barrier {} (snd (afterBatch env links i st))
      \<and> settledIn (snd (afterBatch env links i st)) = fst ` set (take (i + ?n) (allTasks links))
      \<and> (i + ?n) mod ?n = 0"
    using barrier_afterBatch [OF less inv] by blast
qed

lemma barrier_request:
  assumes "barrier S (t1 @ Request q u # t2)" "1 \<le> p" "batchOf p < batchOf q"
  shows "p \<in> S \<union> settledIn t1"
proof -
  from assms(2,3) have "p < Suc (CONFIG_maxConcurrentDownloads * batchOf q)"
    by (simp add: batchOf_def CONFIG_maxConcurrentDownloads_def)
  with assms(1,2) show ?thesis
    by (auto simp: barrier_append list_all_iff simp del: upt_Suc)
qed

lemma downloadAllFiles_barrier: "barrier {} (snd (downloadAllFiles env links))"
  using downloadLoop_barrier [of env links]
  by (auto simp: downloadAllFiles_snd barrier_append split: if_splits)

text \<open>In every run of \<^verbatim>\<open>downloadAllFiles\<close>, ended or not: when the request of a download
  is issued, every download of an earlier batch has settled.\<close>

lemma downloadAllFiles_batches_in_turn:
  assumes "snd (downloadAllFiles env links) = t1 @ Request q u # t2"
    and "1 \<le> p" "batchOf p < batchOf q"
  shows "Settled p \<in> set t1"
proof -
  have "barrier {} (t1 @ Request q u # t2)"
    using downloadAllFiles_barrier [of env links] assms(1) by simp
  then have "p \<in> {} \<union> settledIn t1"
    using assms(2,3) by (rule barrier_request)
  then show ?thesis
    by (simp add: settledIn_iff)
qed

lemma map_snd_allTasks: "map snd (allTasks links) = links"
proof -
  have "length [1..<Suc (length links)] = length links"
    by (simp only: length_upt diff_Suc_1)
  then show ?thesis
    unfolding allTasks_def by (rule map_snd_zip)
qed

lemma linkOf_entries:
  "linkOf (successEntry env task) = snd task" "linkOf (failureEntry env task) = snd task"
  by (simp_all add: linkOf_def successEntry_def failureEntry_def)

lemma settles_cases: "settles env task \<longleftrightarrow> succeeds env task \<or> fails env task"
  by (cases "axios_stream env (fst task) (snd task)") (simp_all add: settles_def succeeds_def fails_def)

lemma succeeds_not_fails: "succeeds env task \<Longrightarrow> \<not> fails env task"
  by (simp add: succeeds_def fails_def)

lemma fails_eq_when_settled:
  assumes "list_all (settles env) tasks"
  shows "filter (fails env) tasks = filter (\<lambda>task. \<not> succeeds env task) tasks"
  using assms by (intro filter_cong refl) (auto simp: list_all_iff settles_cases succeeds_not_fails)

lemma downloadAllFiles_links:
  assumes "fst (downloadAllFiles env links) = Some r"
  shows "mset (map linkOf (success r)) + mset (map linkOf (failed r)) = mset links"
proof -
  have all: "list_all (settles env) (allTasks links)"
    using assms downloadAllFiles_returns_iff [of env links] by simp
  have "mset (map linkOf (success r))
        = image_mset snd (filter_mset (succeeds env) (mset (allTasks links)))"
    by (simp only: mset_map downloadAllFiles_success [OF assms])
       (simp add: image_mset.compositionality comp_def linkOf_entries)
  moreover have "mset (map linkOf (failed r))
        = image_mset snd (filter_mset (\<lambda>t. \<not> succeeds env t) (mset (allTasks links)))"
    by (simp only: mset_map downloadAllFiles_failed [OF assms])
       (simp add: image_mset.compositionality comp_def linkOf_entries
          mset_filter [symmetric] fails_eq_when_settled [OF all] del: mset_filter)
  moreover have "image_mset snd (mset (allTasks links)) = mset links"
    by (simp only: mset_map [symmetric] map_snd_allTasks)
  ultimately show ?thesis
    by (simp add: image_mset_union [symmetric])
qed

lemma downloadAllFiles_count:
  assumes "fst (downloadAllFiles env links) = Some r"
  shows "length (success r) + length (failed r) = length links"
proof -
  have "size (mset (map linkOf (success r)) + mset (map linkOf (failed r))) = size (mset links)"
    by (simp only: downloadAllFiles_links [OF assms])
  then show ?thesis
    by simp
qed

lemma nth_allTasks: "q < length links \<Longrightarrow> allTasks links ! q = (Suc q, links ! q)"
  by (simp add: allTasks_def del: upt_Suc)

lemma in_allTasks_iff:
  "task \<in> set (allTasks links) \<longleftrightarrow> (\<exists>q < length links. task = (Suc q, links ! q))"
  by (auto simp: in_set_conv_nth length_allTasks nth_allTasks)

lemma set_success:
  assumes "fst (downloadAllFiles env links) = Some r"
  shows "set (success r) = successEntry env ` {task \<in> set (allTasks links). succeeds env task}"
proof -
  have "set_mset (mset (success r))
        = set_mset (image_mset (successEntry env) (filter_mset (succeeds env) (mset (allTasks links))))"
    by (simp only: downloadAllFiles_success [OF assms])
  then show ?thesis
    by simp
qed

lemma set_failed:
  assumes "fst (downloadAllFiles env links) = Some r"
  shows "set (failed r) = failureEntry env ` {task \<in> set (allTasks links). fails env task}"
proof -
  have "set_mset (mset (failed r))
        = set_mset (image_mset (failureEntry env) (filter_mset (fails env) (mset (allTasks links))))"
    by (simp only: downloadAllFiles_failed [OF assms])
  then show ?thesis
    by simp
qed

lemma settled_in_trace:
  assumes "fst (downloadAllFiles env links) = Some r" "q < length links"
  shows "Settled (Suc q) \<in> set (snd (downloadAllFiles env links))"
proof -
  have ended: "snd (downloadLoop env links 0 initial)"
    using assms(1) by (simp add: downloadAllFiles_Some)
  with downloadLoop_barrier [of env links] obtain j where j: "length links \<le> j"
    and "settledIn (snd (fst (downloadLoop env links 0 initial))) = fst ` set (take j (allTasks links))"
    by auto
  then have "settledIn (snd (fst (downloadLoop env links 0 initial))) = fst ` set (allTasks links)"
    by (simp add: length_allTasks)
  moreover have "Suc q \<in> fst ` set (allTasks links)"
    using assms(2) by (force simp: in_allTasks_iff)
  ultimately have "Suc q \<in> settledIn (snd (fst (downloadLoop env links 0 initial)))"
    by simp
  then have "Settled (Suc q) \<in> set (snd (fst (downloadLoop env links 0 initial)))"
    by (simp only: settledIn_iff)
  then show ?thesis
    by (simp add: downloadAllFiles_snd)
qed

text \<open>
  What \<^verbatim>\<open>downloadAllFiles\<close> does when every download settles, that is, when it returns:
  it returns as many outcomes as there are links, split between \<open>success\<close> and \<open>failed\<close>,
  and the links inside the outcomes are the given links, each as often as it was given;
  every link is requested once, in the order of the list.
\<close>

lemma downloadAllFiles_outcomes_when_settled:
  assumes "list_all (settles env) (allTasks links)"
  shows "\<exists>r. fst (downloadAllFiles env links) = Some r
     \<and> length (success r) + length (failed r) = length links
     \<and> mset (map linkOf (success r)) + mset (map linkOf (failed r)) = mset links
     \<and> filter isRequest (snd (downloadAllFiles env links)) = map requestOf (allTasks links)"
proof -
  from assms obtain r where r: "fst (downloadAllFiles env links) = Some r"
    using downloadAllFiles_returns_iff [of env links] by auto
  with downloadAllFiles_count [OF r] downloadAllFiles_links [OF r]
    downloadAllFiles_requests [OF r]
  show ?thesis
    by blast
qed

text \<open>
  What a failed download does when every download settles: its entry with the error
  message is in \<open>failed\<close>, every entry of \<open>success\<close> comes from another position of the
  list, whose own download succeeded, every link whose own download succeeds is in
  \<open>success\<close>, and every link is requested and settles.
\<close>

lemma failed_download_when_settled:
  assumes "fst (downloadAllFiles env links) = Some r"
    and "p < length links"
    and "replyError (axios_stream env (Suc p) (links ! p)) = Some e"
  shows "\<lparr>url = url (links ! p), filename = filename (links ! p), error = message e\<rparr>
           \<in> set (failed r)"
    and "s \<in> set (success r) \<Longrightarrow>
         \<exists>q < length links. q \<noteq> p \<and> succeeds env (Suc q, links ! q)
            \<and> s = successEntry env (Suc q, links ! q)"
    and "q < length links \<Longrightarrow> succeeds env (Suc q, links ! q) \<Longrightarrow>
         successEntry env (Suc q, links ! q) \<in> set (success r)"
    and "q < length links \<Longrightarrow>
         Request (Suc q) (url (links ! q)) \<in> set (snd (downloadAllFiles env links))
         \<and> Settled (Suc q) \<in> set (snd (downloadAllFiles env links))"
proof -
  have fails: "fails env (Suc p, links ! p)" and not: "\<not> succeeds env (Suc p, links ! p)"
    using assms(3) by (auto simp: fails_def succeeds_def)
  have "failureEntry env (Suc p, links ! p) \<in> set (failed r)"
    unfolding set_failed [OF assms(1)] using assms(2) fails by (auto simp: in_allTasks_iff)
  then show "\<lparr>url = url (links ! p), filename = filename (links ! p), error = message e\<rparr>
           \<in> set (failed r)"
    using assms(3) by (simp add: failureEntry_def)
  show "\<exists>q < length links. q \<noteq> p \<and> succeeds env (Suc q, links ! q)
            \<and> s = successEntry env (Suc q, links ! q)"
    if "s \<in> set (success r)"
  proof -
    from that obtain q where "q < length links" "succeeds env (Suc q, links ! q)"
      "s = successEntry env (Suc q, links ! q)"
      unfolding set_success [OF assms(1)] by (auto simp: in_allTasks_iff)
    moreover from this not have "q \<noteq> p"
      by auto
    ultimately show ?thesis
      by blast
  qed
  show "successEntry env (Suc q, links ! q) \<in> set (success r)"
    if "q < length links" "succeeds env (Suc q, links ! q)"
    unfolding set_success [OF assms(1)] using that by (auto simp: in_allTasks_iff)
  show "Request (Suc q) (url (links ! q)) \<in> set (snd (downloadAllFiles env links))
        \<and> Settled (Suc q) \<in> set (snd (downloadAllFiles env links))"
    if q: "q < length links"
  proof
    have "requestOf (Suc q, links ! q) \<in> set (map requestOf (allTasks links))"
      using q by (auto simp: in_allTasks_iff)
    then have "requestOf (Suc q, links ! q)
               \<in> set (filter isRequest (snd (downloadAllFiles env links)))"
      by (simp only: downloadAllFiles_requests [OF assms(1)])
    then show "Request (Suc q) (url (links ! q)) \<in> set (snd (downloadAllFiles env links))"
      by (simp add: requestOf_def)
    show "Settled (Suc q) \<in> set (snd (downloadAllFiles env links))"
      using assms(1) q by (rule settled_in_trace)
  qed
qed

text \<open>
  C1.  In a world where the response of the second of seven downloads breaks off after
  its headers, \<^verbatim>\<open>downloadAllFiles\<close> never returns: the first batch has four settled
  downloads, with four outcomes, and one download that stays pending, and the second
  batch is waited for.
\<close>

theorem downloadAllFiles_waits_for_broken_response:
  "length sevenLinks = 7
   \<and> fst (downloadAllFiles stalledEnv sevenLinks) = None
   \<and> map (\<lambda>p. Settled p \<in> set (snd (downloadAllFiles stalledEnv sevenLinks))) [1, 2, 3, 4, 5, 6, 7]
       = [True, False, True, True, True, False, False]
   \<and> length (success (fst (fst (downloadLoop stalledEnv sevenLinks 0 initial))))
       + length (failed (fst (fst (downloadLoop stalledEnv sevenLinks 0 initial)))) = 4"
  by code_simp

text \<open>
  C4.  In the same world the download that fails, the second, is in neither array, and
  the downloads of the second batch are never requested: the requests of the run are
  those of the first five links.
\<close>

theorem broken_response_blocks_later_batches:
  "axios_stream stalledEnv 2 (sevenLinks ! 1) = ResponseBreaks
   \<and> fst (downloadAllFiles stalledEnv sevenLinks) = None
   \<and> sevenLinks ! 1 \<notin> set (map linkOf (failed (fst (fst (downloadLoop stalledEnv sevenLinks 0 initial)))))
   \<and> sevenLinks ! 1 \<notin> set (map linkOf (success (fst (fst (downloadLoop stalledEnv sevenLinks 0 initial)))))
   \<and> filter isRequest (snd (downloadAllFiles stalledEnv sevenLinks))
       = map requestOf (take 5 (allTasks sevenLinks))"
  by code_simp

section \<open>Properties of the run summary\<close>

lemma saveMetadata_result:
  "fst (saveMetadata env downloadResults) = Inr m \<Longrightarrow> m = metadataOf env downloadResults"
  by (auto simp: saveMetadata_def andThen_def writeFileSync_def logger_def split: option.splits)

text \<open>
  C6.  For every download result, the metadata that \<^verbatim>\<open>saveMetadata\<close> has written and
  returns has \<open>totalFiles\<close> equal to \<open>successfulDownloads + failedDownloads\<close>, and its list
  \<open>failedFiles\<close> has \<open>failedDownloads\<close> entries, the file name of each failed entry in
  turn.
\<close>

theorem saveMetadata_counts:
  assumes "fst (saveMetadata env downloadResults) = Inr m"
  shows "totalFiles m = successfulDownloads m + failedDownloads m
   \<and> length (failedFiles m) = failedDownloads m
   \<and> successfulDownloads m = length (success downloadResults)
   \<and> failedDownloads m = length (failed downloadResults)
   \<and> failedFiles m = map filename (failed downloadResults)"
  using saveMetadata_result [OF assms] by (simp add: metadataOf_def)

theorem saveMetadata_counts_witness:
  "fst (downloadAllFiles sampleEnv sampleLinks) = Some sampleResults
   \<and> fst (saveMetadata sampleEnv sampleResults) = Inr (metadataOf sampleEnv sampleResults)
   \<and> totalFiles (metadataOf sampleEnv sampleResults) = 3
   \<and> successfulDownloads (metadataOf sampleEnv sampleResults) = 2
   \<and> failedDownloads (metadataOf sampleEnv sampleResults) = 1
   \<and> length (failedFiles (metadataOf sampleEnv sampleResults)) = 1"
proof -
  have r: "fst (downloadAllFiles sampleEnv sampleLinks) = Some sampleResults"
    by code_simp
  have h: "fst (saveMetadata sampleEnv sampleResults) = Inr (metadataOf sampleEnv sampleResults)"
    by (simp add: saveMetadata_def andThen_def writeFileSync_def logger_def sampleEnv_def)
  have n: "length (success sampleResults) = 2 \<and> length (failed sampleResults) = 1"
    by (simp add: sampleResults_def)
  from saveMetadata_counts [OF h] r h n show ?thesis
    by simp
qed

lemma filePath_success:
  "fst (downloadAllFiles env links) = Some r \<Longrightarrow> s \<in> set (success r)
   \<Longrightarrow> filePath s = path_join env (downloadDir env) (sanitizedFilename (filename s))"
  by (auto simp: set_success successEntry_def destination_def)

text \<open>
  C10.  The names that the metadata of a run lists as failed are the \<open>filename\<close> fields
  of the links whose downloads failed, as link extraction produced them; the sanitized
  name is used only for the path on disk, as the paths of the successful downloads show.
\<close>

theorem failedFiles_are_original_filenames:
  assumes "fst (downloadAllFiles env links) = Some r"
    and "fst (saveMetadata env r) = Inr m"
  shows "mset (failedFiles m)
         = mset (map (\<lambda>task. filename (snd task))
                  (filter (\<lambda>task. \<not> succeeds env task) (allTasks links)))
   \<and> list_all (\<lambda>s. filePath s = path_join env (downloadDir env) (sanitizedFilename (filename s)))
        (success r)"
proof -
  have all: "list_all (settles env) (allTasks links)"
    using assms(1) downloadAllFiles_returns_iff [of env links] by simp
  have "mset (failedFiles m) = image_mset filename (mset (failed r))"
    using saveMetadata_result [OF assms(2)] by (simp add: metadataOf_def)
  also have "\<dots> = image_mset (\<lambda>task. filename (snd task))
                      (filter_mset (fails env) (mset (allTasks links)))"
    by (simp only: downloadAllFiles_failed [OF assms(1)])
       (simp add: image_mset.compositionality comp_def failureEntry_def)
  also have "\<dots> = mset (map (\<lambda>task. filename (snd task)) (filter (fails env) (allTasks links)))"
    by simp
  finally show ?thesis
    using filePath_success [OF assms(1)]
    by (simp add: list_all_iff fails_eq_when_settled [OF all])
qed

theorem failedFiles_are_original_filenames_witness:
  "fst (downloadAllFiles sampleEnv sampleLinks) = Some sampleResults
   \<and> fst (saveMetadata sampleEnv sampleResults) = Inr (metadataOf sampleEnv sampleResults)
   \<and> mset (failedFiles (metadataOf sampleEnv sampleResults)) = mset [''b c.zip'']
   \<and> sanitizedFilename ''b c.zip'' = ''b_c.zip''"
proof -
  have r: "fst (downloadAllFiles sampleEnv sampleLinks) = Some sampleResults"
    by code_simp
  have h: "fst (saveMetadata sampleEnv sampleResults) = Inr (metadataOf sampleEnv sampleResults)"
    by (simp add: saveMetadata_def andThen_def writeFileSync_def logger_def sampleEnv_def)
  have n: "map (\<lambda>task. filename (snd task))
             (filter (\<lambda>task. \<not> succeeds sampleEnv task) (allTasks sampleLinks)) = [''b c.zip'']
           \<and> sanitizedFilename ''b c.zip'' = ''b_c.zip''"
    by code_simp
  from failedFiles_are_original_filenames [OF r h] r h n show ?thesis
    by simp
qed

section \<open>Properties of post-processing\<close>

lemma processFile_caught:
  "fst (processFile env file) = Inr ()"
  by (simp add: processFile_def tryCatch_def logger_def Let_def split: prod.splits sum.splits)

lemma processFile_logged:
  assumes "fst (processFileTry env file (path_basename env (filePath file))) = Inl e"
  shows "snd (processFile env file)
         = snd (processFileTry env file (path_basename env (filePath file)))
           @ [Log Err (''Error processing file '' @ path_basename env (filePath file) @ '': ''
                       @ message e)]"
  using assms
  by (cases "processFileTry env file (path_basename env (filePath file))")
     (simp add: processFile_def tryCatch_def logger_def Let_def)

lemma forOf_processFile:
  "forOf (processFile env) files
   = (Inr (), concat (map (\<lambda>file. snd (processFile env file)) files))"
proof (induction files)
  case Nil
  show ?case by simp
next
  case (Cons x files)
  obtain t where "processFile env x = (Inr (), t)"
    using processFile_caught [of env x] by (cases "processFile env x") auto
  with Cons show ?case
    by simp
qed

lemma processDownloadedFiles_eq:
  "processDownloadedFiles env downloadResults
   = (Inr (), Log Info ''Processing downloaded files...''
        # concat (map (\<lambda>file. snd (processFile env file)) (success downloadResults))
        @ [Log Info ''Finished processing downloaded files''])"
  by (simp add: processDownloadedFiles_def andThen_def logger_def forOf_processFile)

section \<open>Properties of link extraction and of the run\<close>

lemma main_reaches_saveMetadata:
  assumes "fst (setupDirectories env) = Inr ()" "fst (getLinks env) = Inr links" "links \<noteq> []"
    and "fst (downloadAllFiles env links) = Some r"
  shows "WriteFile (metadataPath env) \<in> set (main env)"
proof -
  obtain t1 where t1: "setupDirectories env = (Inr (), t1)"
    using assms(1) by (cases "setupDirectories env") auto
  obtain t2 where t2: "getLinks env = (Inr links, t2)"
    using assms(2) by (cases "getLinks env") auto
  obtain t3 where t3: "downloadAllFiles env links = (Some r, t3)"
    using assms(4) by (cases "downloadAllFiles env links") auto
  show ?thesis
    using assms(3)
    by (simp add: main_def mainBody_def andThen_def tryCatch_def t1 t2 t3
          processDownloadedFiles_eq saveMetadata_def writeFileSync_def logger_def
          split: prod.splits sum.splits option.splits)
qed


lemma getLinks_primary_ok:
  "extractDownloadLinks env = (Inr links, t) \<Longrightarrow> getLinks env = (Inr links, t)"
  by (simp add: getLinks_def tryCatch_def)

lemma getLinks_primary_fails:
  "extractDownloadLinks env = (Inl e, t) \<Longrightarrow>
   getLinks env
   = (fst (fetchLinksWithCurl env),
      t @ [Log Warn (''Primary extraction method failed: '' @ message e),
           Log Info ''Trying backup method with curl...'']
        @ snd (fetchLinksWithCurl env))"
  by (simp add: getLinks_def tryCatch_def andThen_def logger_def split: prod.splits sum.splits)

lemma extractDownloadLinks_trace:
  "e \<in> set (snd (extractDownloadLinks env)) \<Longrightarrow>
   (\<exists>lvl msg. e = Log lvl msg) \<or> e = HttpGet CONFIG_url
   \<or> e = WriteFile (path_join env (downloadDir env) ''_links.json'')"
  by (auto simp: extractDownloadLinks_def tryCatch_def andThen_def logger_def writeFileSync_def
        split: prod.splits sum.splits option.splits if_splits)

lemma extractDownloadLinks_no_exec: "Exec c \<notin> set (snd (extractDownloadLinks env))"
  using extractDownloadLinks_trace [of "Exec c" env] by auto

lemma extractDownloadLinks_no_request: "Request q u \<notin> set (snd (extractDownloadLinks env))"
  using extractDownloadLinks_trace [of "Request q u" env] by auto

lemma extractDownloadLinks_logs_error:
  "fst (extractDownloadLinks env) = Inl e \<Longrightarrow>
   Log Err (''Error extracting download links: '' @ message e) \<in> set (snd (extractDownloadLinks env))"
  by (auto simp: extractDownloadLinks_def tryCatch_def andThen_def logger_def writeFileSync_def
        split: prod.splits sum.splits option.splits if_splits)

lemma fetchLinksWithCurl_trace:
  "\<exists>t. snd (fetchLinksWithCurl env)
        = Log Info ''Trying to fetch page with curl as a backup method'' # Exec curlCommand # t
      \<and> (\<forall>e \<in> set t. \<exists>lvl msg. e = Log lvl msg)"
  by (auto simp: fetchLinksWithCurl_def tryCatch_def andThen_def logger_def
        split: prod.splits sum.splits option.splits if_splits)


lemma startTrace_no_exec: "Exec c \<notin> set (startTrace env task)"
  by (simp add: startTrace_def downloadFile_start_def)

lemma settleTrace_no_exec: "Exec c \<notin> set (settleTrace env task)"
  by (cases "axios_stream env (fst task) (snd task)")
     (simp_all add: settleTrace_def downloadFile_settle_def settles_def)

lemma downloadAllFiles_no_exec: "Exec c \<notin> set (snd (downloadAllFiles env links))"
proof -
  have "if snd (downloadLoop env links 0 initial)
        then \<exists>j. length links \<le> j \<and> Exec c \<notin> set (snd (fst (downloadLoop env links 0 initial)))
        else Exec c \<notin> set (snd (fst (downloadLoop env links 0 initial)))"
    by (rule downloadLoop_invariant
          [where I = "\<lambda>i st. Exec c \<notin> set (snd st)" and Q = "\<lambda>st. Exec c \<notin> set (snd st)"])
       (simp_all add: initial_def afterBatch_trace startTrace_no_exec settleTrace_no_exec)
  then show ?thesis
    by (auto simp: downloadAllFiles_snd split: if_splits)
qed

lemma unzipCommand_not_curl:
  "unzipCommand archive dir \<noteq> curlCommand" "curlCommand \<noteq> unzipCommand archive dir"
  by (simp_all add: unzipCommand_def curlCommand_def)

lemma processFileTry_no_curl: "Exec curlCommand \<notin> set (snd (processFileTry env file name))"
  by (auto simp: unzipCommand_not_curl processFileTry_def andThen_def logger_def mkdirSync_def copyFileSync_def Let_def
        split: prod.splits sum.splits option.splits if_splits)

lemma processFile_no_curl: "Exec curlCommand \<notin> set (snd (processFile env file))"
  using processFileTry_no_curl [of env "file" "path_basename env (filePath file)"]
  by (auto simp: processFile_def tryCatch_def logger_def Let_def split: prod.splits sum.splits)

lemma processDownloadedFiles_no_curl:
  "Exec curlCommand \<notin> set (snd (processDownloadedFiles env downloadResults))"
  by (simp add: processDownloadedFiles_eq processFile_no_curl)

lemma setupDirectories_trace:
  "e \<in> set (snd (setupDirectories env)) \<Longrightarrow> (\<exists>lvl msg. e = Log lvl msg) \<or> (\<exists>dir. e = MkDir dir)"
  by (auto simp: setupDirectories_def andThen_def logger_def mkdirSync_def
        split: prod.splits sum.splits option.splits if_splits)

lemma saveMetadata_trace:
  "e \<in> set (snd (saveMetadata env downloadResults)) \<Longrightarrow>
   (\<exists>lvl msg. e = Log lvl msg) \<or> e = WriteFile (metadataPath env)"
  by (auto simp: saveMetadata_def andThen_def logger_def writeFileSync_def
        split: prod.splits sum.splits option.splits if_splits)

text \<open>The trace of a run, by the outcome of link extraction and of the downloads.\<close>

lemma main_links_failed:
  assumes "setupDirectories env = (Inr (), t1)" "getLinks env = (Inl e, t2)"
  shows "main env = Log Info ''=== Starting price files download job ==='' # t1 @ t2
                    @ [Log Err (''Job failed: '' @ message e)]"
  using assms by (simp add: main_def mainBody_def andThen_def tryCatch_def logger_def)

lemma main_no_links:
  assumes "setupDirectories env = (Inr (), t1)" "getLinks env = (Inr [], t2)"
  shows "main env = Log Info ''=== Starting price files download job ==='' # t1 @ t2
                    @ [Log Warn ''No download links found. Job completed with no downloads.'']"
  using assms by (simp add: main_def mainBody_def andThen_def tryCatch_def logger_def)

lemma main_with_links:
  assumes "setupDirectories env = (Inr (), t1)" "getLinks env = (Inr links, t2)" "links \<noteq> []"
    and "downloadAllFiles env links = (Some r, t3)"
  shows "\<exists>t4. main env = Log Info ''=== Starting price files download job ==='' # t1 @ t2 @ t3
                  @ snd (processDownloadedFiles env r) @ snd (saveMetadata env r) @ t4
               \<and> (\<forall>e \<in> set t4. \<exists>lvl msg. e = Log lvl msg)"
  using assms
  by (cases "saveMetadata env r")
     (auto simp: main_def mainBody_def andThen_def tryCatch_def logger_def processDownloadedFiles_eq
        split: prod.splits sum.splits)

lemma main_waits:
  assumes "setupDirectories env = (Inr (), t1)" "getLinks env = (Inr links, t2)" "links \<noteq> []"
    and "downloadAllFiles env links = (None, t3)"
  shows "main env = Log Info ''=== Starting price files download job ==='' # t1 @ t2 @ t3"
  using assms by (simp add: main_def mainBody_def andThen_def tryCatch_def logger_def)


lemma setupDirectories_no_exec: "Exec c \<notin> set (snd (setupDirectories env))"
  using setupDirectories_trace [of "Exec c" env] by auto

lemma setupDirectories_no_request: "Request q u \<notin> set (snd (setupDirectories env))"
  using setupDirectories_trace [of "Request q u" env] by auto

lemma saveMetadata_no_exec: "Exec c \<notin> set (snd (saveMetadata env downloadResults))"
  using saveMetadata_trace [of "Exec c" env downloadResults] by auto

lemma fetchLinksWithCurl_count:
  "count_list (snd (fetchLinksWithCurl env)) (Exec curlCommand) = 1"
proof -
  from fetchLinksWithCurl_trace [of env] obtain t
    where t: "snd (fetchLinksWithCurl env)
              = Log Info ''Trying to fetch page with curl as a backup method'' # Exec curlCommand # t"
      and logs: "\<forall>e \<in> set t. \<exists>lvl msg. e = Log lvl msg"
    by blast
  from logs have "Exec curlCommand \<notin> set t"
    by auto
  then have "count_list t (Exec curlCommand) = 0"
    by (simp add: count_list_0_iff)
  with t show ?thesis
    by simp
qed

lemma fetchLinksWithCurl_no_request: "Request q u \<notin> set (snd (fetchLinksWithCurl env))"
  using fetchLinksWithCurl_trace [of env] by auto

lemma getLinks_count:
  "count_list (snd (getLinks env)) (Exec curlCommand)
   = (case fst (extractDownloadLinks env) of Inl e \<Rightarrow> 1 | Inr links \<Rightarrow> 0)"
proof (cases "extractDownloadLinks env")
  case (Pair r t)
  have t: "count_list t (Exec curlCommand) = 0"
    using extractDownloadLinks_no_exec [of curlCommand env] Pair by (simp add: count_list_0_iff)
  show ?thesis
  proof (cases r)
    case (Inl e)
    with Pair t show ?thesis
      by (simp add: getLinks_primary_fails fetchLinksWithCurl_count)
  next
    case (Inr links)
    with Pair t show ?thesis
      by (simp add: getLinks_primary_ok)
  qed
qed

lemma main_count:
  assumes "fst (setupDirectories env) = Inr ()"
  shows "count_list (main env) (Exec curlCommand) = count_list (snd (getLinks env)) (Exec curlCommand)"
proof -
  obtain t1 where t1: "setupDirectories env = (Inr (), t1)"
    using assms by (cases "setupDirectories env") auto
  have c1: "count_list t1 (Exec curlCommand) = 0"
    using setupDirectories_no_exec [of curlCommand env] t1 by (simp add: count_list_0_iff)
  obtain r t2 where t2: "getLinks env = (r, t2)"
    by (cases "getLinks env")
  show ?thesis
  proof (cases r)
    case (Inl e)
    with t1 t2 c1 show ?thesis
      by (simp add: main_links_failed)
  next
    case (Inr links)
    show ?thesis
    proof (cases "links = []")
      case True
      with Inr t1 t2 c1 show ?thesis
        by (simp add: main_no_links)
    next
      case False
      obtain d t3 where t3: "downloadAllFiles env links = (d, t3)"
        by (cases "downloadAllFiles env links")
      have c3: "count_list t3 (Exec curlCommand) = 0"
        using downloadAllFiles_no_exec [of curlCommand env links] t3 by (simp add: count_list_0_iff)
      show ?thesis
      proof (cases d)
        case None
        with main_waits [OF t1 t2 [unfolded Inr] False] t3 c1 c3 t2 show ?thesis
          by simp
      next
        case (Some r)
        from main_with_links [OF t1 t2 [unfolded Inr] False t3 [unfolded Some]] obtain t4
          where m: "main env = Log Info ''=== Starting price files download job ==='' # t1 @ t2 @ t3
                    @ snd (processDownloadedFiles env r) @ snd (saveMetadata env r) @ t4"
            and logs: "\<forall>e \<in> set t4. \<exists>lvl msg. e = Log lvl msg"
          by blast
        from logs have "Exec curlCommand \<notin> set t4"
          by auto
        then have "count_list t4 (Exec curlCommand) = 0"
          by (simp add: count_list_0_iff)
        then show ?thesis
          unfolding m using c1 c3 t2
          by (simp add: count_list_0_iff processDownloadedFiles_no_curl saveMetadata_no_exec)
      qed
    qed
  qed
qed

lemma main_both_fail:
  assumes "fst (setupDirectories env) = Inr ()"
    and "fst (extractDownloadLinks env) = Inl e1" "fst (fetchLinksWithCurl env) = Inl e2"
  shows "main env = Log Info ''=== Starting price files download job ===''
           # snd (setupDirectories env) @ snd (getLinks env)
           @ [Log Err (''Job failed: '' @ message e2)]"
    and "fst (getLinks env) = Inl e2"
    and "snd (getLinks env)
         = snd (extractDownloadLinks env)
           @ [Log Warn (''Primary extraction method failed: '' @ message e1),
              Log Info ''Trying backup method with curl...'']
           @ snd (fetchLinksWithCurl env)"
proof -
  obtain t1 where t1: "setupDirectories env = (Inr (), t1)"
    using assms(1) by (cases "setupDirectories env") auto
  obtain t where t: "extractDownloadLinks env = (Inl e1, t)"
    using assms(2) by (cases "extractDownloadLinks env") auto
  from getLinks_primary_fails [OF t] assms(3)
  show g: "fst (getLinks env) = Inl e2"
    and "snd (getLinks env)
         = snd (extractDownloadLinks env)
           @ [Log Warn (''Primary extraction method failed: '' @ message e1),
              Log Info ''Trying backup method with curl...'']
           @ snd (fetchLinksWithCurl env)"
    by (simp_all add: t)
  from g obtain t2 where "getLinks env = (Inl e2, t2)"
    by (cases "getLinks env") auto
  with t1 show "main env = Log Info ''=== Starting price files download job ===''
           # snd (setupDirectories env) @ snd (getLinks env)
           @ [Log Err (''Job failed: '' @ message e2)]"
    by (simp add: main_links_failed)
qed


text \<open>
  C5.  \<^verbatim>\<open>fetchLinksWithCurl\<close> runs the curl command once each time it is called, and
  nothing else runs that command, so the executions of the command in the trace of a run
  count the calls of the fallback.  In every run that gets to link extraction: if the
  primary strategy fails, the fallback is called exactly once; if the fallback fails too,
  the run ends with the log line of the failed job and has requested no download; if the
  primary strategy succeeds, the fallback is not called.
\<close>

theorem fallback_invoked_exactly_once:
  assumes "fst (setupDirectories env) = Inr ()"
  shows "(\<forall>e. fst (extractDownloadLinks env) = Inl e \<longrightarrow>
            count_list (main env) (Exec curlCommand) = 1)
   \<and> (\<forall>e e'. fst (extractDownloadLinks env) = Inl e \<and> fst (fetchLinksWithCurl env) = Inl e' \<longrightarrow>
            filter isRequest (main env) = []
            \<and> last (main env) = Log Err (''Job failed: '' @ message e'))
   \<and> (\<forall>links. fst (extractDownloadLinks env) = Inr links \<longrightarrow>
            count_list (main env) (Exec curlCommand) = 0)"
proof (intro conjI allI impI)
  show "count_list (main env) (Exec curlCommand) = 1" if "fst (extractDownloadLinks env) = Inl e" for e
    using that by (simp add: main_count [OF assms] getLinks_count)
  show "count_list (main env) (Exec curlCommand) = 0" if "fst (extractDownloadLinks env) = Inr links" for links
    using that by (simp add: main_count [OF assms] getLinks_count)
  fix e e'
  assume both: "fst (extractDownloadLinks env) = Inl e \<and> fst (fetchLinksWithCurl env) = Inl e'"
  note m = main_both_fail [OF assms both [THEN conjunct1] both [THEN conjunct2]]
  have "\<not> isRequest x" if "x \<in> set (snd (setupDirectories env))" for x
    using setupDirectories_trace [OF that] by auto
  moreover have "\<not> isRequest x" if "x \<in> set (snd (extractDownloadLinks env))" for x
    using extractDownloadLinks_trace [OF that] by auto
  moreover have "\<not> isRequest x" if "x \<in> set (snd (fetchLinksWithCurl env))" for x
    using fetchLinksWithCurl_trace [of env] that by fastforce
  ultimately show "filter isRequest (main env) = []"
    unfolding m(1) m(3) by (auto simp: filter_empty_conv)
  show "last (main env) = Log Err (''Job failed: '' @ message e')"
    unfolding m(1) by simp
qed

theorem fallback_invoked_exactly_once_witness:
  "fst (setupDirectories blockedEnv) = Inr ()
   \<and> fst (extractDownloadLinks blockedEnv) = Inl (Error ''Request failed with status code 403'')
   \<and> fst (fetchLinksWithCurl blockedEnv) = Inl (Error ''Command failed: curl'')
   \<and> count_list (main blockedEnv) (Exec curlCommand) = 1
   \<and> filter isRequest (main blockedEnv) = []
   \<and> last (main blockedEnv) = Log Err (''Job failed: '' @ message (Error ''Command failed: curl''))
   \<and> fst (setupDirectories sampleEnv) = Inr ()
   \<and> fst (extractDownloadLinks sampleEnv) = Inr sampleLinks
   \<and> count_list (main sampleEnv) (Exec curlCommand) = 0"
proof -
  have h1: "fst (setupDirectories blockedEnv) = Inr ()"
    by code_simp
  have h2: "fst (extractDownloadLinks blockedEnv) = Inl (Error ''Request failed with status code 403'')
            \<and> fst (fetchLinksWithCurl blockedEnv) = Inl (Error ''Command failed: curl'')"
    by code_simp
  have h3: "fst (setupDirectories sampleEnv) = Inr ()"
    by code_simp
  have h4: "fst (extractDownloadLinks sampleEnv) = Inr sampleLinks"
    by code_simp
  from fallback_invoked_exactly_once [OF h1] fallback_invoked_exactly_once [OF h3] h1 h2 h3 h4
  show ?thesis
    by blast
qed

text \<open>
  The claim of C2 as it is written says that the error of the primary strategy leaves
  the link-extraction phase when both strategies fail.  In a world where the page
  request is refused and curl fails, the error that leaves the phase is that of curl.
\<close>

theorem getLinks_propagates_fallback_error_counterexample:
  "fst (extractDownloadLinks blockedEnv) = Inl (Error ''Request failed with status code 403'')
   \<and> fst (fetchLinksWithCurl blockedEnv) = Inl (Error ''Command failed: curl'')
   \<and> fst (getLinks blockedEnv) = Inl (Error ''Command failed: curl'')
   \<and> fst (getLinks blockedEnv) \<noteq> Inl (Error ''Request failed with status code 403'')"
  by code_simp

text \<open>
  C2, as the code has it.  When the primary strategy fails and the fallback fails too,
  the error that leaves the link-extraction phase of \<^verbatim>\<open>main\<close> is the error of the
  fallback; the error of the primary strategy is logged, by \<^verbatim>\<open>extractDownloadLinks\<close> and
  in the warning of \<^verbatim>\<open>main\<close>.
\<close>

theorem getLinks_propagates_fallback_error:
  assumes "fst (extractDownloadLinks env) = Inl e1" and "fst (fetchLinksWithCurl env) = Inl e2"
  shows "fst (getLinks env) = Inl e2
   \<and> Log Err (''Error extracting download links: '' @ message e1) \<in> set (snd (getLinks env))
   \<and> Log Warn (''Primary extraction method failed: '' @ message e1) \<in> set (snd (getLinks env))"
proof -
  obtain t where t: "extractDownloadLinks env = (Inl e1, t)"
    using assms(1) by (cases "extractDownloadLinks env") auto
  have "Log Err (''Error extracting download links: '' @ message e1) \<in> set t"
    using extractDownloadLinks_logs_error [OF assms(1)] t by simp
  then show ?thesis
    using assms(2) by (simp add: getLinks_primary_fails [OF t])
qed

theorem getLinks_propagates_fallback_error_witness:
  "fst (extractDownloadLinks blockedEnv) = Inl (Error ''Request failed with status code 403'')
   \<and> fst (fetchLinksWithCurl blockedEnv) = Inl (Error ''Command failed: curl'')
   \<and> fst (getLinks blockedEnv) = Inl (Error ''Command failed: curl'')
   \<and> Log Warn (''Primary extraction method failed: ''
                @ message (Error ''Request failed with status code 403''))
       \<in> set (snd (getLinks blockedEnv))"
proof -
  have h1: "fst (extractDownloadLinks blockedEnv) = Inl (Error ''Request failed with status code 403'')"
    by code_simp
  have h2: "fst (fetchLinksWithCurl blockedEnv) = Inl (Error ''Command failed: curl'')"
    by code_simp
  from getLinks_propagates_fallback_error [OF h1 h2] h1 h2 show ?thesis
    by blast
qed

text \<open>
  C9.  \<^verbatim>\<open>processDownloadedFiles\<close> returns normally for every list of successful
  downloads.  Its trace is the traces of the files one after the other, so a file is
  processed whatever happened to the files before it; when the \<^verbatim>\<open>try\<close> block of a file
  throws, the error is logged and the file is done.  A run that has found links and
  whose \<^verbatim>\<open>downloadAllFiles\<close> has returned, so that the files are processed, reaches the
  write of the metadata.
\<close>

theorem processDownloadedFiles_never_raises:
  "fst (processDownloadedFiles env downloadResults) = Inr ()
   \<and> snd (processDownloadedFiles env downloadResults)
       = Log Info ''Processing downloaded files...''
         # concat (map (\<lambda>file. snd (processFile env file)) (success downloadResults))
         @ [Log Info ''Finished processing downloaded files'']
   \<and> (\<forall>file e. fst (processFileTry env file (path_basename env (filePath file))) = Inl e \<longrightarrow>
          fst (processFile env file) = Inr ()
          \<and> snd (processFile env file)
              = snd (processFileTry env file (path_basename env (filePath file)))
                @ [Log Err (''Error processing file '' @ path_basename env (filePath file) @ '': ''
                            @ message e)])
   \<and> (\<forall>links r. fst (setupDirectories env) = Inr () \<and> fst (getLinks env) = Inr links \<and> links \<noteq> []
          \<and> fst (downloadAllFiles env links) = Some r \<longrightarrow>
          WriteFile (metadataPath env) \<in> set (main env))"
  using main_reaches_saveMetadata [of env]
  by (simp add: processDownloadedFiles_eq processFile_caught processFile_logged)

theorem processDownloadedFiles_never_raises_witness:
  "fst (processFileTry unzipFailsEnv sampleArchive (path_basename unzipFailsEnv (filePath sampleArchive)))
     = Inl (Error ''Command failed: unzip'')
   \<and> fst (processFile unzipFailsEnv sampleArchive) = Inr ()
   \<and> snd (processFile unzipFailsEnv sampleArchive)
       = snd (processFileTry unzipFailsEnv sampleArchive
                (path_basename unzipFailsEnv (filePath sampleArchive)))
         @ [Log Err (''Error processing file '' @ path_basename unzipFailsEnv (filePath sampleArchive)
                     @ '': '' @ message (Error ''Command failed: unzip''))]
   \<and> fst (setupDirectories unzipFailsEnv) = Inr ()
   \<and> fst (getLinks unzipFailsEnv) = Inr sampleLinks \<and> sampleLinks \<noteq> []
   \<and> fst (downloadAllFiles unzipFailsEnv sampleLinks) = Some sampleDownloaded
   \<and> WriteFile (metadataPath unzipFailsEnv) \<in> set (main unzipFailsEnv)
   \<and> fst (processDownloadedFiles unzipFailsEnv sampleDownloaded) = Inr ()"
proof -
  have h1: "fst (processFileTry unzipFailsEnv sampleArchive
                  (path_basename unzipFailsEnv (filePath sampleArchive)))
            = Inl (Error ''Command failed: unzip'')"
    by code_simp
  have h2: "fst (setupDirectories unzipFailsEnv) = Inr ()
            \<and> fst (getLinks unzipFailsEnv) = Inr sampleLinks \<and> sampleLinks \<noteq> []
            \<and> fst (downloadAllFiles unzipFailsEnv sampleLinks) = Some sampleDownloaded"
    by code_simp
  from processDownloadedFiles_never_raises [of unzipFailsEnv sampleDownloaded] h1 h2
  show ?thesis
    by blast
qed

text \<open>The file name that each of the two callbacks derives: the first non-empty
  candidate of its list.\<close>

lemma extractCallback_priority:
  assumes "attr_href element = Some href"
  shows "\<exists>l. extractCallback i element = Inr l
     \<and> url l = absoluteUrl href
     \<and> filename l = hd (filter (\<lambda>s. s \<noteq> [])
         [case attr_download element of Some d \<Rightarrow> d | None \<Rightarrow> [],
          trim (text_content element), last (split_slash href),
          ''file-'' @ decimal i @ ''.csv''])"
  using assms by (simp add: extractCallback_def Let_def split: option.splits)

lemma curlCallback_priority:
  assumes "attr_href element = Some href"
  shows "\<exists>l. curlCallback i element = Inr l
     \<and> url l = absoluteUrl href
     \<and> filename l = hd (filter (\<lambda>s. s \<noteq> [])
         [trim (text_content element), ''file-'' @ decimal i @ ''.csv''])"
  using assms by (simp add: curlCallback_def Let_def)

text \<open>
  C7.  On the same page the two strategies derive different file names: the primary
  strategy prefers the \<^verbatim>\<open>download\<close> attribute and falls back to the last segment of the URL
  when the text is blank, the fallback strategy uses neither.
\<close>

theorem fallback_skips_download_attribute_and_url_segment:
  "fst (extractDownloadLinks sampleEnv)
     = Inr [\<lparr>url = ''https://www.konzum.hr/files/a.csv'', filename = ''a.csv''\<rparr>,
            \<lparr>url = ''files/b c.zip'', filename = ''b c.zip''\<rparr>,
            \<lparr>url = ''https://x.hr/'', filename = ''file-2.csv''\<rparr>]
   \<and> fst (fetchLinksWithCurl sampleEnv)
     = Inr [\<lparr>url = ''https://www.konzum.hr/files/a.csv'', filename = ''Store A''\<rparr>,
            \<lparr>url = ''files/b c.zip'', filename = ''file-1.csv''\<rparr>,
            \<lparr>url = ''https://x.hr/'', filename = ''file-2.csv''\<rparr>]"
  by code_simp

lemma absoluteUrl_root_relative:
  "startsWith href ''/'' \<Longrightarrow> absoluteUrl href = ''https://www.konzum.hr'' @ href"
  by (simp add: absoluteUrl_def baseUrl_protocol_def baseUrl_host_def)

lemma absoluteUrl_other: "\<not> startsWith href ''/'' \<Longrightarrow> absoluteUrl href = href"
  by (simp add: absoluteUrl_def)

text \<open>
  C8.  Both strategies put the origin of the page in front of an \<^verbatim>\<open>href\<close> that starts
  with a slash, and keep every other \<^verbatim>\<open>href\<close> as it is: a path-relative \<^verbatim>\<open>href\<close> stays
  relative in the link.
\<close>

theorem relative_href_is_kept:
  "map_sum id (map url) (fst (extractDownloadLinks sampleEnv))
     = Inr [''https://www.konzum.hr/files/a.csv'', ''files/b c.zip'', ''https://x.hr/'']
   \<and> map_sum id (map url) (fst (fetchLinksWithCurl sampleEnv))
     = Inr [''https://www.konzum.hr/files/a.csv'', ''files/b c.zip'', ''https://x.hr/'']
   \<and> \<not> isAbsoluteUrl ''files/b c.zip''
   \<and> isAbsoluteUrl ''https://www.konzum.hr/files/a.csv''"
  by code_simp

end
